theory Spec2Isabelle
  imports Complex_Main "HOL-Library.Log_Nat"
begin

section \<open>Numbers\<close>

text \<open>
  The tempo and every duration are JavaScript numbers, that is IEEE 754 binary64 values.
  A finite value is kept as the rational it denotes; the three special values are
  constructors.  Every arithmetic operation rounds its exact result to the nearest
  binary64 value, ties to even (\<open>fl\<close>).  Not modelled: overflow to an infinity beyond
  about \<open>1.8e308\<close>, gradual underflow below \<open>2 powi (- 1022)\<close>, and the sign of zero (a zero
  divisor counts as \<open>+0\<close>).
\<close>

datatype jsnum = Fin rat | PInf | NInf | NaN

definition round_even :: "rat \<Rightarrow> int" where
  "round_even x =
     (let f = \<lfloor>x\<rfloor>; d = x - of_int f
      in if d < 1 / 2 then f else if 1 / 2 < d then f + 1 else if even f then f else f + 1)"

text \<open>\<open>ilog2 x\<close> is the binary exponent of a positive rational: \<open>2 powi ilog2 x \<le> x < 2 powi (ilog2 x + 1)\<close>.\<close>

definition ilog2 :: "rat \<Rightarrow> int" where
  "ilog2 x =
     (let p = fst (quotient_of x); q = snd (quotient_of x); d = bitlen p - bitlen q
      in if 2 powi d \<le> x then d else d - 1)"

definition fl :: "rat \<Rightarrow> rat" where
  "fl x =
     (if x = 0 then 0
      else let u = 2 powi (ilog2 \<bar>x\<bar> - 52) in of_int (round_even (x / u)) * u)"

text \<open>Division, multiplication, addition, \<open>Math.ceil\<close>, \<open>Math.round\<close> (ties towards
  \<open>+\<infinity>\<close>), \<open>Math.max\<close> and \<open>Math.min\<close>.\<close>

definition jdiv :: "jsnum \<Rightarrow> jsnum \<Rightarrow> jsnum" where
  "jdiv a b =
     (case (a, b) of
        (Fin x, Fin y) \<Rightarrow>
          (if y = 0 then (if x = 0 then NaN else if 0 < x then PInf else NInf)
           else Fin (fl (x / y)))
      | (Fin x, PInf) \<Rightarrow> Fin 0
      | (Fin x, NInf) \<Rightarrow> Fin 0
      | (PInf, Fin y) \<Rightarrow> (if 0 \<le> y then PInf else NInf)
      | (NInf, Fin y) \<Rightarrow> (if 0 \<le> y then NInf else PInf)
      | _ \<Rightarrow> NaN)"

definition jmul :: "jsnum \<Rightarrow> jsnum \<Rightarrow> jsnum" where
  "jmul a b =
     (case (a, b) of
        (Fin x, Fin y) \<Rightarrow> Fin (fl (x * y))
      | (Fin x, PInf) \<Rightarrow> (if x = 0 then NaN else if 0 < x then PInf else NInf)
      | (Fin x, NInf) \<Rightarrow> (if x = 0 then NaN else if 0 < x then NInf else PInf)
      | (PInf, Fin y) \<Rightarrow> (if y = 0 then NaN else if 0 < y then PInf else NInf)
      | (NInf, Fin y) \<Rightarrow> (if y = 0 then NaN else if 0 < y then NInf else PInf)
      | (PInf, PInf) \<Rightarrow> PInf
      | (PInf, NInf) \<Rightarrow> NInf
      | (NInf, PInf) \<Rightarrow> NInf
      | (NInf, NInf) \<Rightarrow> PInf
      | _ \<Rightarrow> NaN)"

definition jadd :: "jsnum \<Rightarrow> jsnum \<Rightarrow> jsnum" where
  "jadd a b =
     (case (a, b) of
        (Fin x, Fin y) \<Rightarrow> Fin (fl (x + y))
      | (Fin x, PInf) \<Rightarrow> PInf
      | (Fin x, NInf) \<Rightarrow> NInf
      | (PInf, Fin y) \<Rightarrow> PInf
      | (NInf, Fin y) \<Rightarrow> NInf
      | (PInf, PInf) \<Rightarrow> PInf
      | (NInf, NInf) \<Rightarrow> NInf
      | _ \<Rightarrow> NaN)"

definition jceil :: "jsnum \<Rightarrow> jsnum" where
  "jceil a = (case a of Fin x \<Rightarrow> Fin (of_int \<lceil>x\<rceil>) | _ \<Rightarrow> a)"

definition jround :: "jsnum \<Rightarrow> jsnum" where
  "jround a = (case a of Fin x \<Rightarrow> Fin (of_int \<lfloor>x + 1 / 2\<rfloor>) | _ \<Rightarrow> a)"

definition jmax :: "jsnum \<Rightarrow> jsnum \<Rightarrow> jsnum" where
  "jmax a b =
     (case (a, b) of
        (NaN, _) \<Rightarrow> NaN
      | (_, NaN) \<Rightarrow> NaN
      | (PInf, _) \<Rightarrow> PInf
      | (_, PInf) \<Rightarrow> PInf
      | (NInf, _) \<Rightarrow> b
      | (_, NInf) \<Rightarrow> a
      | (Fin x, Fin y) \<Rightarrow> Fin (max x y))"

definition jmin :: "jsnum \<Rightarrow> jsnum \<Rightarrow> jsnum" where
  "jmin a b =
     (case (a, b) of
        (NaN, _) \<Rightarrow> NaN
      | (_, NaN) \<Rightarrow> NaN
      | (NInf, _) \<Rightarrow> NInf
      | (_, NInf) \<Rightarrow> NInf
      | (PInf, _) \<Rightarrow> b
      | (_, PInf) \<Rightarrow> a
      | (Fin x, Fin y) \<Rightarrow> Fin (min x y))"

section \<open>The loop length\<close>

text \<open>
  \<open>calculateOptimalDuration(bpm, timeSignature = {beats: 4, noteValue: 4})\<close>.  The second
  argument of the model is \<open>timeSignature.beats\<close>; \<open>noteValue\<close> is never read.  The two
  intermediate values \<open>secondsPerBar\<close> and \<open>minBars\<close> are definitions of their own,
  since the function logs \<open>minBars\<close>.  The function body has no \<open>throw\<close>, and arithmetic on numbers
  does not raise, so the model has no error branch.
\<close>

definition secondsPerBar_of :: "jsnum \<Rightarrow> jsnum \<Rightarrow> jsnum" where
  "secondsPerBar_of bpm beats = (let secondsPerBeat = jdiv (Fin 60) bpm in jmul secondsPerBeat beats)"

definition minBars_of :: "jsnum \<Rightarrow> jsnum \<Rightarrow> jsnum" where
  "minBars_of bpm beats = jceil (jdiv (Fin 10) (secondsPerBar_of bpm beats))"

definition calculateOptimalDuration :: "jsnum \<Rightarrow> jsnum \<Rightarrow> jsnum" where
  "calculateOptimalDuration bpm beats =
     (let secondsPerBar = secondsPerBar_of bpm beats;
          minBars = minBars_of bpm beats;
          durationSeconds =
            jdiv (jround (jmul (jmul minBars secondsPerBar) (Fin 1000))) (Fin 1000)
      in durationSeconds)"

text \<open>How a call of the function completes: with a value, or by signalling an error.\<close>

datatype tempo_error = InvalidTempo

datatype completion = Returns jsnum | Signals tempo_error

definition calculateOptimalDuration_call :: "jsnum \<Rightarrow> completion" where
  "calculateOptimalDuration_call bpm = Returns (calculateOptimalDuration bpm (Fin 4))"

text \<open>
  The specification's loop length for a whole tempo \<open>b\<close> in exact arithmetic: one bar lasts
  \<open>60 / b * 4\<close> seconds, the number of bars is the ceiling of \<open>10\<close> seconds over one bar, and
  the length is rounded to the millisecond.
\<close>

definition spec_secondsPerBar :: "int \<Rightarrow> rat" where
  "spec_secondsPerBar b = 60 / of_int b * 4"

definition spec_bars :: "int \<Rightarrow> int" where
  "spec_bars b = \<lceil>10 / spec_secondsPerBar b\<rceil>"

definition spec_targetSeconds :: "int \<Rightarrow> rat" where
  "spec_targetSeconds b =
     of_int \<lfloor>of_int (spec_bars b) * spec_secondsPerBar b * 1000 + 1 / 2\<rfloor> / 1000"

section \<open>The state of the component\<close>

record track =
  t_name :: string
  t_id :: nat
  t_url :: "string option"
  t_muted :: "bool option"

text \<open>JavaScript truthiness of \<open>string | null | undefined\<close> and of \<open>boolean | undefined\<close>.\<close>

definition truthy_str :: "string option \<Rightarrow> bool" where
  "truthy_str u = (case u of None \<Rightarrow> False | Some s \<Rightarrow> s \<noteq> [])"

definition truthy_bool :: "bool option \<Rightarrow> bool" where
  "truthy_bool b = (case b of None \<Rightarrow> False | Some v \<Rightarrow> v)"

datatype ctx_state = Suspended | Running | Closed

record audio_buffer =
  ab_duration :: rat

text \<open>
  Source nodes and gain nodes are objects that the three maps of the component refer to.
  They live in two stores, a node's address being its index.  A source node of the store
  has been created, connected and started: lines 913 to 942 run without suspension.
  \<open>sn_track\<close> is not a field of the JavaScript object: it records the \<open>trackId\<close> of the
  call that created the node, so that "the nodes of a track" can be stated.
\<close>

record source_node =
  sn_track :: nat
  sn_buffer :: audio_buffer
  sn_loop :: bool
  sn_loopStart :: rat
  sn_loopEnd :: rat
  sn_stopped :: bool
  sn_gain :: nat

record gain_node =
  gn_value :: rat

text \<open>
  An \<open>HTMLAudioElement\<close>.  \<open>el_ended\<close> and \<open>el_timeupdate\<close> list the handlers of its
  \<open>ended\<close> and \<open>timeupdate\<close> events, by identity and in the order of their registration.
  The handlers of \<open>loadedmetadata\<close> only log and are left out.
\<close>

record audio_el =
  el_paused :: bool
  el_currentTime :: rat
  el_muted :: bool
  el_readyState :: nat
  el_ended :: "nat list"
  el_timeupdate :: "nat list"

text \<open>The entries of the history list, one constructor per message template.\<close>

datatype history_entry =
    Adding string
  | AddedOk string
  | AddFailed string
  | Removed string
  | ChangedTempo jsnum
  | SetTempo jsnum
  | VoiceAdded string
  | VoiceUnknown string

text \<open>
  The live state: the React state variables (\<open>tracks\<close> to \<open>isPlayingAll\<close>) and the
  contents of the refs.
\<close>

record app =
  tracks :: "track list"
  history :: "history_entry list"
  currentBPM :: jsnum
  webAudioSupported :: bool
  isPlayingAll :: bool
  audioContext :: "ctx_state option"
  audioBuffers :: "nat \<rightharpoonup> audio_buffer"
  sourceNodes :: "nat \<rightharpoonup> nat"
  gainNodes :: "nat \<rightharpoonup> nat"
  audioRefs :: "nat \<rightharpoonup> audio_el"
  loopHandlers :: "nat \<rightharpoonup> nat"
  src_heap :: "source_node list"
  gain_heap :: "gain_node list"

text \<open>
  A function of the component is a closure of one render: it reads the state variables as
  they were in that render, while a ref is read live and a functional update
  \<open>setTracks(prev => ...)\<close> applies to the live state.  \<open>render\<close> holds the captured
  values.  A handler attached by the JSX of the latest render captures \<open>render_of\<close> the
  live state.  The speech handler is installed once, by an effect with an empty
  dependency list, so it keeps the closure of the first render: \<open>first_render\<close>.
\<close>

record render =
  r_tracks :: "track list"
  r_currentBPM :: jsnum
  r_webAudioSupported :: bool
  r_isPlayingAll :: bool

definition render_of :: "app \<Rightarrow> render" where
  "render_of st =
     \<lparr>r_tracks = tracks st, r_currentBPM = currentBPM st,
      r_webAudioSupported = webAudioSupported st, r_isPlayingAll = isPlayingAll st\<rparr>"

definition first_render :: render where
  "first_render =
     \<lparr>r_tracks = [], r_currentBPM = Fin 120, r_webAudioSupported = False,
      r_isPlayingAll = False\<rparr>"

text \<open>What a call does that is not a state change, in the order it does it.\<close>

datatype event =
    Suspend
  | Issued nat
  | Settled nat bool
  | Cached nat
  | CannotPlay nat
  | SrcStop nat
  | SrcStart nat nat
  | ElPause nat
  | ElPlay nat
  | PlayRejected nat
  | SyncError
  | PlayAllError
  | NoTracksAlert
  | GenRequest string
  | RevokeUrl string

text \<open>
  \<open>Suspend\<close>: an \<open>await\<close>, the call yields to the event loop.  \<open>Issued t\<close>: the decode of
  track \<open>t\<close> (line 882), or the wait for its element to be ready (line 1198), begins.
  \<open>Settled t ok\<close>: it has ended, with success (line 892, line 1205 or 1210) or failure
  (the \<open>console.error\<close> of line 894, the timeout of line 1200).  \<open>Cached t\<close>: the buffer was
  already present (line 1153).  \<open>SrcStop a\<close>, \<open>SrcStart t a\<close>: \<open>stop()\<close> and \<open>start()\<close>
  on the source node at address \<open>a\<close>.  \<open>ElPause\<close>, \<open>ElPlay\<close>: \<open>pause()\<close> and \<open>play()\<close>
  on the audio element of a track.
\<close>

text \<open>
  What the environment does while a call is suspended, and how the awaited operations end.
  \<open>w_during_*\<close> are the state changes made by other handlers during a suspension.
\<close>

datatype load_outcome = Decoded audio_buffer | LoadError

record world =
  w_resume :: bool
  w_during_resume :: "app \<Rightarrow> app"
  w_during_load :: "nat \<Rightarrow> app \<Rightarrow> app"
  w_decode :: "nat \<Rightarrow> string \<Rightarrow> load_outcome"
  w_during_ready :: "app \<Rightarrow> app"
  w_canplay :: "nat \<Rightarrow> bool"
  w_play_ok :: "nat \<Rightarrow> bool"
  w_during_generate :: "app \<Rightarrow> app"
  w_generate :: "string \<Rightarrow> string option"
  w_confirm :: bool

definition is_start :: "event \<Rightarrow> bool" where
  "is_start e = (case e of SrcStart t a \<Rightarrow> True | ElPlay t \<Rightarrow> True | _ \<Rightarrow> False)"


section \<open>The Web Audio engine\<close>

text \<open>\<open>loadAudioBuffer\<close>: its three awaits are one suspension of the model.\<close>

definition loadAudioBuffer :: "render \<Rightarrow> world \<Rightarrow> nat \<Rightarrow> string \<Rightarrow> app \<Rightarrow> event list \<times> app" where
  "loadAudioBuffer r w trackId url st =
     (if audioContext st = None \<or> \<not> r_webAudioSupported r then ([], st)
      else
        let st1 = w_during_load w trackId st
        in case (w_decode w trackId url, audioContext st1) of
             (Decoded audioBuffer, Some c) \<Rightarrow>
               ([Issued trackId, Suspend, Settled trackId True],
                st1\<lparr>audioBuffers := (audioBuffers st1)(trackId \<mapsto> audioBuffer)\<rparr>)
           | _ \<Rightarrow> ([Issued trackId, Suspend, Settled trackId False], st1))"

definition stop_node :: "nat \<Rightarrow> source_node list \<Rightarrow> source_node list" where
  "stop_node a h = (if a < length h then h[a := (h ! a)\<lparr>sn_stopped := True\<rparr>] else h)"

definition MAX_LOOP_DURATION :: rat where
  "MAX_LOOP_DURATION = 10"

definition playTrackWebAudio :: "render \<Rightarrow> nat \<Rightarrow> bool \<Rightarrow> app \<Rightarrow> event list \<times> app" where
  "playTrackWebAudio r trackId m st =
     (if audioContext st = None \<or> \<not> r_webAudioSupported r then ([], st)
      else case audioBuffers st trackId of
        None \<Rightarrow> ([], st)
      | Some audioBuffer \<Rightarrow>
          let (ev1, st1) =
                (case sourceNodes st trackId of
                   None \<Rightarrow> ([], st)
                 | Some existingSource \<Rightarrow>
                     ([SrcStop existingSource],
                      st\<lparr>src_heap := stop_node existingSource (src_heap st),
                         sourceNodes := (sourceNodes st)(trackId := None)\<rparr>));
              clamp = (MAX_LOOP_DURATION < ab_duration audioBuffer);
              a = length (src_heap st1);
              g = length (gain_heap st1);
              source = \<lparr>sn_track = trackId, sn_buffer = audioBuffer, sn_loop = True,
                        sn_loopStart = 0,
                        sn_loopEnd = (if clamp then MAX_LOOP_DURATION else 0),
                        sn_stopped = False, sn_gain = g\<rparr>;
              gainNode = \<lparr>gn_value = (if m then 0 else 1)\<rparr>
          in (ev1 @ [SrcStart trackId a],
              st1\<lparr>src_heap := src_heap st1 @ [source],
                  gain_heap := gain_heap st1 @ [gainNode],
                  sourceNodes := (sourceNodes st1)(trackId \<mapsto> a),
                  gainNodes := (gainNodes st1)(trackId \<mapsto> g)\<rparr>))"

definition stopTrackWebAudio :: "nat \<Rightarrow> app \<Rightarrow> event list \<times> app" where
  "stopTrackWebAudio trackId st =
     (case sourceNodes st trackId of
        None \<Rightarrow> ([], st)
      | Some source \<Rightarrow>
          ([SrcStop source],
           st\<lparr>src_heap := stop_node source (src_heap st),
              sourceNodes := (sourceNodes st)(trackId := None),
              gainNodes := (gainNodes st)(trackId := None)\<rparr>))"

definition set_gain :: "nat \<Rightarrow> rat \<Rightarrow> gain_node list \<Rightarrow> gain_node list" where
  "set_gain g v h = (if g < length h then h[g := (h ! g)\<lparr>gn_value := v\<rparr>] else h)"


text \<open>
  The loop region of a playing source node, as the Web Audio API defines it from the
  node's three loop attributes: the whole buffer unless \<open>loopStart\<close> and \<open>loopEnd\<close>
  delimit a non-empty region.
\<close>

definition loop_region :: "source_node \<Rightarrow> (rat \<times> rat) option" where
  "loop_region n =
     (if \<not> sn_loop n then None
      else if 0 \<le> sn_loopStart n \<and> 0 < sn_loopEnd n \<and> sn_loopStart n < sn_loopEnd n
        then Some (sn_loopStart n, min (sn_loopEnd n) (ab_duration (sn_buffer n)))
      else Some (0, ab_duration (sn_buffer n)))"

text \<open>The source nodes of a track that are playing.\<close>

definition active_nodes :: "app \<Rightarrow> nat \<Rightarrow> nat list" where
  "active_nodes st tid =
     filter (\<lambda>a. sn_track (src_heap st ! a) = tid \<and> \<not> sn_stopped (src_heap st ! a))
       [0..<length (src_heap st)]"

definition all_active :: "app \<Rightarrow> nat list" where
  "all_active st = filter (\<lambda>a. \<not> sn_stopped (src_heap st ! a)) [0..<length (src_heap st)]"

section \<open>Adding, playing, stopping, muting and removing tracks\<close>

text \<open>
  \<open>generateTrack\<close> posts one request to the generation service and resolves to the URL of
  the clip, or to \<open>null\<close> when the request fails: \<open>w_generate\<close>.  \<open>Date.now()\<close> is the
  argument \<open>now\<close>.
\<close>

definition displayName_of :: "string \<Rightarrow> string option \<Rightarrow> string" where
  "displayName_of inst style =
     (case style of
        None \<Rightarrow> inst
      | Some s \<Rightarrow> if s \<noteq> [] then s @ '' '' @ inst else inst)"

definition addTrack :: "render \<Rightarrow> world \<Rightarrow> nat \<Rightarrow> string \<Rightarrow> string option \<Rightarrow> app \<Rightarrow> event list \<times> app" where
  "addTrack r w now inst style st =
     (let displayName = displayName_of inst style in
      if find (\<lambda>t. t_name t = displayName) (r_tracks r) \<noteq> None then ([], st)
      else
        let loadingTrack = \<lparr>t_name = displayName, t_id = now, t_url = None, t_muted = Some False\<rparr>;
            st1 = st\<lparr>tracks := tracks st @ [loadingTrack],
                     history := history st @ [Adding displayName]\<rparr>;
            st2 = w_during_generate w st1;
            url = w_generate w displayName;
            st3 = st2\<lparr>tracks := map (\<lambda>t. if t_id t = now then t\<lparr>t_url := url\<rparr> else t) (tracks st2)\<rparr>;
            (ev4, st4) =
              (case url of
                 None \<Rightarrow> ([], st3)
               | Some u \<Rightarrow>
                   if u \<noteq> [] \<and> r_webAudioSupported r
                   then (let (e, s) = loadAudioBuffer r w now u st3 in (e @ [Suspend], s))
                   else ([], st3));
            st5 = st4\<lparr>history := butlast (history st4) @
                     [if truthy_str url then AddedOk displayName else AddFailed displayName]\<rparr>
        in ([GenRequest displayName, Suspend] @ ev4, st5))"

text \<open>\<open>playAll\<close>, lines 1129 to 1135: pause and rewind the audio elements.\<close>

fun pause_elements :: "track list \<Rightarrow> app \<Rightarrow> event list \<times> app" where
  "pause_elements [] st = ([], st)"
| "pause_elements (t # ts) st =
     (case audioRefs st (t_id t) of
        None \<Rightarrow> pause_elements ts st
      | Some audio \<Rightarrow>
          if truthy_str (t_url t)
          then (let st1 = st\<lparr>audioRefs := (audioRefs st)(t_id t \<mapsto>
                              audio\<lparr>el_paused := True, el_currentTime := 0\<rparr>)\<rparr>;
                    (ev, st2) = pause_elements ts st1
                in (ElPause (t_id t) # ev, st2))
          else pause_elements ts st)"

text \<open>Lines 1152 to 1163: decode the buffers that are missing, one after the other.  The
  counter \<open>buffersLoaded\<close> is only logged and is left out.\<close>

fun load_missing :: "render \<Rightarrow> world \<Rightarrow> track list \<Rightarrow> app \<Rightarrow> event list \<times> app" where
  "load_missing r w [] st = ([], st)"
| "load_missing r w (t # ts) st =
     (if audioBuffers st (t_id t) \<noteq> None
      then (let (ev, st2) = load_missing r w ts st in (Cached (t_id t) # ev, st2))
      else case t_url t of
        None \<Rightarrow> load_missing r w ts st
      | Some u \<Rightarrow>
          if u \<noteq> []
          then (let (e1, st1) = loadAudioBuffer r w (t_id t) u st;
                    (ev, st2) = load_missing r w ts st1
                in (e1 @ [Suspend] @ ev, st2))
          else load_missing r w ts st)"

text \<open>Lines 1168 to 1174: start the tracks whose buffer is loaded.\<close>

fun start_loaded :: "render \<Rightarrow> track list \<Rightarrow> app \<Rightarrow> event list \<times> app" where
  "start_loaded r [] st = ([], st)"
| "start_loaded r (t # ts) st =
     (if truthy_str (t_url t) \<and> audioBuffers st (t_id t) \<noteq> None
      then (let (e1, st1) = playTrackWebAudio r (t_id t) (truthy_bool (t_muted t)) st;
                (ev, st2) = start_loaded r ts st1
            in (e1 @ ev, st2))
      else (let (ev, st2) = start_loaded r ts st in (CannotPlay (t_id t) # ev, st2)))"

text \<open>Lines 1183 to 1190: the elements of the fallback, collected by the id of their track.\<close>

fun prepare_elements :: "track list \<Rightarrow> app \<Rightarrow> nat list \<times> app" where
  "prepare_elements [] st = ([], st)"
| "prepare_elements (t # ts) st =
     (case audioRefs st (t_id t) of
        None \<Rightarrow> prepare_elements ts st
      | Some audio \<Rightarrow>
          if truthy_str (t_url t)
          then (let st1 = st\<lparr>audioRefs := (audioRefs st)(t_id t \<mapsto>
                              audio\<lparr>el_currentTime := 0, el_muted := truthy_bool (t_muted t)\<rparr>)\<rparr>;
                    (ids, st2) = prepare_elements ts st1
                in (t_id t # ids, st2))
          else prepare_elements ts st)"

text \<open>Lines 1198 to 1212: an element is ready when it has buffered enough already, or when
  \<open>canplaythrough\<close> fires before the timeout of five seconds.\<close>

definition el_ready :: "world \<Rightarrow> app \<Rightarrow> nat \<Rightarrow> bool" where
  "el_ready w st i =
     (case audioRefs st i of
        None \<Rightarrow> w_canplay w i
      | Some audio \<Rightarrow> 4 \<le> el_readyState audio \<or> w_canplay w i)"

fun play_elements :: "world \<Rightarrow> nat list \<Rightarrow> app \<Rightarrow> app" where
  "play_elements w [] st = st"
| "play_elements w (i # is) st =
     (case audioRefs st i of
        None \<Rightarrow> play_elements w is st
      | Some audio \<Rightarrow>
          if w_play_ok w i
          then play_elements w is (st\<lparr>audioRefs := (audioRefs st)(i \<mapsto> audio\<lparr>el_paused := False\<rparr>)\<rparr>)
          else play_elements w is st)"

definition playAll :: "render \<Rightarrow> world \<Rightarrow> app \<Rightarrow> event list \<times> app" where
  "playAll r w st =
     (let playableTracks = filter (\<lambda>t. truthy_str (t_url t)) (r_tracks r) in
      if playableTracks = [] then ([NoTracksAlert], st)
      else
        let (ev0, st0) = pause_elements (r_tracks r) st in
        if audioContext st0 = Some Suspended \<and> \<not> w_resume w
        then (ev0 @ [Suspend, PlayAllError], (w_during_resume w st0)\<lparr>isPlayingAll := False\<rparr>)
        else
          let (ev1, st1) =
                (if audioContext st0 = Some Suspended
                 then ([Suspend], (w_during_resume w st0)\<lparr>audioContext := Some Running\<rparr>)
                 else ([], st0));
              st2 = st1\<lparr>isPlayingAll := True\<rparr>
          in if r_webAudioSupported r \<and> audioContext st2 \<noteq> None
             then
               (let (ev3, st3) = load_missing r w playableTracks st2;
                    (ev4, st4) = start_loaded r playableTracks st3
                in (ev0 @ ev1 @ ev3 @ ev4, st4))
             else
               (let (ids, st3) = prepare_elements playableTracks st2 in
                if ids = [] then (ev0 @ ev1, st3)
                else
                  let st4 = w_during_ready w st3 in
                  case find (\<lambda>i. \<not> el_ready w st3 i) ids of
                    None \<Rightarrow>
                      (ev0 @ ev1 @ map Issued ids @ [Suspend] @ map (\<lambda>i. Settled i True) ids @
                         map ElPlay ids @ [Suspend] @
                         map PlayRejected (filter (\<lambda>i. \<not> w_play_ok w i) ids),
                       play_elements w ids st4)
                  | Some late \<Rightarrow>
                      (ev0 @ ev1 @ map Issued ids @ [Suspend, Settled late False, SyncError], st4)))"

text \<open>\<open>stopAll\<close>.\<close>

fun stop_web :: "track list \<Rightarrow> app \<Rightarrow> event list \<times> app" where
  "stop_web [] st = ([], st)"
| "stop_web (t # ts) st =
     (let (e1, st1) = stopTrackWebAudio (t_id t) st;
          (ev, st2) = stop_web ts st1
      in (e1 @ ev, st2))"

definition stop_element :: "nat \<Rightarrow> audio_el \<Rightarrow> app \<Rightarrow> app" where
  "stop_element i audio st =
     (let paused = audio\<lparr>el_paused := True, el_currentTime := 0\<rparr> in
      case loopHandlers st i of
        None \<Rightarrow> st\<lparr>audioRefs := (audioRefs st)(i \<mapsto> paused)\<rparr>
      | Some handler \<Rightarrow>
          st\<lparr>audioRefs := (audioRefs st)(i \<mapsto> paused\<lparr>el_ended := removeAll handler (el_ended paused)\<rparr>),
             loopHandlers := (loopHandlers st)(i := None)\<rparr>)"

fun stop_elements :: "track list \<Rightarrow> app \<Rightarrow> event list \<times> app" where
  "stop_elements [] st = ([], st)"
| "stop_elements (t # ts) st =
     (case audioRefs st (t_id t) of
        None \<Rightarrow> stop_elements ts st
      | Some audio \<Rightarrow>
          if truthy_str (t_url t)
          then (let (ev, st2) = stop_elements ts (stop_element (t_id t) audio st)
                in (ElPause (t_id t) # ev, st2))
          else stop_elements ts st)"

definition stopAll :: "render \<Rightarrow> app \<Rightarrow> event list \<times> app" where
  "stopAll r st =
     (let st0 = st\<lparr>isPlayingAll := False\<rparr>;
          (ev1, st1) = (if r_webAudioSupported r then stop_web (r_tracks r) st0 else ([], st0));
          (ev2, st2) = stop_elements (r_tracks r) st1
      in (ev1 @ ev2, st2))"


definition removeTrack :: "render \<Rightarrow> nat \<Rightarrow> app \<Rightarrow> event list \<times> app" where
  "removeTrack r trackId st =
     (case find (\<lambda>t. t_id t = trackId) (r_tracks r) of
        None \<Rightarrow> ([], st)
      | Some track \<Rightarrow>
          let (ev1, st1) =
                (if r_webAudioSupported r
                 then (let (e, s) = stopTrackWebAudio trackId st
                       in (e, s\<lparr>audioBuffers := (audioBuffers s)(trackId := None)\<rparr>))
                 else ([], st));
              (ev2, st2) =
                (case audioRefs st1 trackId of
                   None \<Rightarrow> ([], st1)
                 | Some audio \<Rightarrow>
                     (ElPause trackId #
                        (case t_url track of
                           None \<Rightarrow> []
                         | Some u \<Rightarrow> if u \<noteq> [] then [RevokeUrl u] else []),
                      stop_element trackId audio st1));
              st3 = st2\<lparr>audioRefs := (audioRefs st2)(trackId := None)\<rparr>
          in (ev1 @ ev2,
              st3\<lparr>tracks := filter (\<lambda>t. t_id t \<noteq> trackId) (tracks st3),
                  history := history st3 @ [Removed (t_name track)]\<rparr>))"

text \<open>
  The \<open>ref\<close> callback of the audio element of a track, lines 1595 to 1663.  React calls it
  with the element when the element is mounted (\<open>ref_attach\<close>) and with \<open>null\<close> when the
  element is removed (\<open>ref_detach\<close>).  The callback is an inline function, a new one in every
  render, so at every commit React also calls the old callback with \<open>null\<close> and the new one
  with the element, for an element that stays mounted: \<open>ref_update\<close>.  \<open>h\<close> is the identity
  of the two closures \<open>loopHandler\<close> and \<open>timeUpdateHandler\<close> that a call creates.
\<close>

definition ref_attach :: "nat \<Rightarrow> audio_el \<Rightarrow> nat \<Rightarrow> app \<Rightarrow> app" where
  "ref_attach trackId el h st =
     (if loopHandlers st trackId = None
      then st\<lparr>audioRefs := (audioRefs st)(trackId \<mapsto>
                el\<lparr>el_ended := el_ended el @ [h], el_timeupdate := el_timeupdate el @ [h]\<rparr>),
              loopHandlers := (loopHandlers st)(trackId \<mapsto> h)\<rparr>
      else st\<lparr>audioRefs := (audioRefs st)(trackId \<mapsto> el)\<rparr>)"

definition ref_detach :: "nat \<Rightarrow> app \<Rightarrow> app" where
  "ref_detach trackId st =
     (let st1 =
            (case loopHandlers st trackId of
               None \<Rightarrow> st
             | Some handler \<Rightarrow>
                 (case audioRefs st trackId of
                    None \<Rightarrow> st
                  | Some audio \<Rightarrow>
                      st\<lparr>audioRefs := (audioRefs st)(trackId \<mapsto>
                           audio\<lparr>el_ended := removeAll handler (el_ended audio)\<rparr>)\<rparr>)
                 \<lparr>loopHandlers := (loopHandlers st)(trackId := None)\<rparr>)
      in st1\<lparr>audioRefs := (audioRefs st1)(trackId := None)\<rparr>)"

text \<open>The element itself outlives \<open>ref_detach\<close>, which only forgets it: \<open>ref_update\<close> hands the
  element, as \<open>ref_detach\<close> has left it, to \<open>ref_attach\<close>.\<close>

definition ref_update :: "nat \<Rightarrow> nat \<Rightarrow> app \<Rightarrow> app" where
  "ref_update trackId h st =
     (case audioRefs st trackId of
        None \<Rightarrow> st
      | Some audio \<Rightarrow>
          let el = (case loopHandlers st trackId of
                      None \<Rightarrow> audio
                    | Some handler \<Rightarrow> audio\<lparr>el_ended := removeAll handler (el_ended audio)\<rparr>)
          in ref_attach trackId el h (ref_detach trackId st))"

text \<open>\<open>changeBPM\<close> and \<open>clearAllTracks\<close>; \<open>w_confirm\<close> is the answer to the confirm dialog.\<close>

definition changeBPM :: "render \<Rightarrow> world \<Rightarrow> jsnum \<Rightarrow> app \<Rightarrow> app" where
  "changeBPM r w newBPM st =
     (if filter (\<lambda>t. truthy_str (t_url t)) (r_tracks r) \<noteq> []
      then (if w_confirm w
            then st\<lparr>currentBPM := newBPM, history := history st @ [ChangedTempo newBPM]\<rparr>
            else st)
      else st\<lparr>currentBPM := newBPM, history := history st @ [SetTempo newBPM]\<rparr>)"

definition clearAllTracks :: "world \<Rightarrow> app \<Rightarrow> app" where
  "clearAllTracks w st = (if w_confirm w then st\<lparr>tracks := [], history := []\<rparr> else st)"

text \<open>
  The callers of \<open>changeBPM\<close> in the JSX: the select over \<open>bpmPresets\<close> (line 1507), the
  minus and plus buttons (lines 1745 and 1755) and the four quick presets (line 1767).
\<close>

definition bpmPresets :: "jsnum list" where
  "bpmPresets = map Fin [80, 90, 100, 110, 120, 130, 140, 150]"

definition quickPresets :: "jsnum list" where
  "quickPresets = map Fin [80, 100, 120, 140]"

datatype tempo_action = SelectPreset nat | Minus | Plus | QuickPreset nat

definition ui_tempo :: "tempo_action \<Rightarrow> world \<Rightarrow> app \<Rightarrow> app" where
  "ui_tempo act w st =
     (let r = render_of st in
      case act of
        SelectPreset i \<Rightarrow> (if i < length bpmPresets then changeBPM r w (bpmPresets ! i) st else st)
      | Minus \<Rightarrow> changeBPM r w (jmax (Fin 60) (jadd (r_currentBPM r) (Fin (- 10)))) st
      | Plus \<Rightarrow> changeBPM r w (jmin (Fin 200) (jadd (r_currentBPM r) (Fin 10))) st
      | QuickPreset i \<Rightarrow> (if i < length quickPresets then changeBPM r w (quickPresets ! i) st else st))"

text \<open>
  The speech handler, lines 1432 to 1440.  Matching the transcript against the instrument
  table is not modelled: \<open>matchedInstrument\<close> and \<open>commandStyle\<close> are its results.  The
  handler calls the \<open>addTrack\<close> of the first render, and appends its own history entry as
  soon as that call is suspended.
\<close>

definition voice_result :: "world \<Rightarrow> nat \<Rightarrow> string option \<Rightarrow> string option \<Rightarrow> string \<Rightarrow> app \<Rightarrow> event list \<times> app" where
  "voice_result w now matchedInstrument commandStyle command st =
     (case matchedInstrument of
        None \<Rightarrow> ([], st\<lparr>history := history st @ [VoiceUnknown command]\<rparr>)
      | Some inst \<Rightarrow>
          addTrack first_render
            (w\<lparr>w_during_generate :=
                 (\<lambda>s. w_during_generate w
                        (s\<lparr>history := history s @ [VoiceAdded (displayName_of inst commandStyle)]\<rparr>))\<rparr>)
            now inst commandStyle st)"

text \<open>A world in which no other handler runs while a call is suspended.\<close>

definition quiet :: "world \<Rightarrow> bool" where
  "quiet w = (w_during_resume w = (\<lambda>s. s) \<and> w_during_load w = (\<lambda>t s. s) \<and>
              w_during_ready w = (\<lambda>s. s) \<and> w_during_generate w = (\<lambda>s. s))"


section \<open>Evaluating the rounding\<close>

text \<open>
  Three functions that compute \<open>fl\<close> on numerals: \<open>round53 e x\<close> rounds \<open>x\<close> to a multiple of
  \<open>2 powi (e - 52)\<close>, \<open>fl_bisect lo hi x\<close> finds the exponent of \<open>x\<close> between \<open>lo\<close> and
  \<open>hi\<close> by bisection, and \<open>round_even_frac a b\<close> rounds the fraction \<open>a / b\<close> in integer
  arithmetic.  The lemmas \<open>fl_bisect_eq\<close> and \<open>round_even_frac\<close> below show that they agree
  with \<open>fl\<close> and \<open>round_even\<close>.
\<close>

definition round53 :: "int \<Rightarrow> rat \<Rightarrow> rat" where
  "round53 e x = of_int (round_even (x * 2 powi (52 - e))) / 2 powi (52 - e)"

function fl_bisect :: "int \<Rightarrow> int \<Rightarrow> rat \<Rightarrow> rat" where
  "fl_bisect lo hi x =
     (if hi \<le> lo + 1 then round53 lo x
      else if x < 2 powi ((lo + hi) div 2) then fl_bisect lo ((lo + hi) div 2) x
      else fl_bisect ((lo + hi) div 2) hi x)"
  by pat_completeness auto
termination
  by (relation "measure (\<lambda>(lo, hi, x). nat (hi - lo))") auto

definition round_even_frac :: "int \<Rightarrow> int \<Rightarrow> int" where
  "round_even_frac a b =
     (let q = a div b; r = 2 * (a mod b)
      in if r < b then q else if b < r then q + 1 else if even q then q else q + 1)"

text \<open>The tempos that the buttons of the page can reach, and the supported range.\<close>

definition ui_tempos :: "jsnum list" where
  "ui_tempos = map Fin [60, 70, 80, 90, 100, 110, 120, 130, 140, 150, 160, 170, 180, 190, 200]"

definition tempo_in_range :: "jsnum \<Rightarrow> bool" where
  "tempo_in_range v = (case v of Fin x \<Rightarrow> 60 \<le> x \<and> x \<le> 200 | _ \<Rightarrow> False)"

text \<open>
  The specification's loop length for a tempo that need not be whole, in exact arithmetic, and
  a tempo between 71 and 72 that is a binary64 value.
\<close>

definition spec_bars_at :: "rat \<Rightarrow> int" where
  "spec_bars_at x = \<lceil>10 / (60 / x * 4)\<rceil>"

definition spec_targetSeconds_at :: "rat \<Rightarrow> rat" where
  "spec_targetSeconds_at x =
     of_int \<lfloor>of_int (spec_bars_at x) * (60 / x * 4) * 1000 + 1 / 2\<rfloor> / 1000"

definition odd_tempo :: rat where
  "odd_tempo = 5066296265978509 / 2 ^ 46"

text \<open>The comparison that the tempo-by-tempo lemmas evaluate.\<close>

definition duration_agrees :: "int \<Rightarrow> bool" where
  "duration_agrees b =
     (let secondsPerBar = secondsPerBar_of (Fin (of_int b)) (Fin 4);
          minBars = jceil (jdiv (Fin 10) secondsPerBar)
      in minBars = Fin (of_int (spec_bars b)) \<and>
         jdiv (jround (jmul (jmul minBars secondsPerBar) (Fin 1000))) (Fin 1000) =
           Fin (fl (spec_targetSeconds b)))"

section \<open>The states that the source nodes can be in\<close>

text \<open>
  \<open>sourceNodesRef\<close> and the source nodes are written by \<open>playTrackWebAudio\<close> and by
  \<open>stopTrackWebAudio\<close> only; every other statement of the page leaves them alone (rule
  \<open>other\<close>).  At mount there is no source node (rule \<open>mount\<close>).
\<close>

inductive reachable :: "app \<Rightarrow> bool" where
  mount: "src_heap st = [] \<Longrightarrow> reachable st"
| play: "reachable st \<Longrightarrow> reachable (snd (playTrackWebAudio r tid m st))"
| stop: "reachable st \<Longrightarrow> reachable (snd (stopTrackWebAudio tid st))"
| other: "reachable st \<Longrightarrow> src_heap st' = src_heap st \<Longrightarrow> sourceNodes st' = sourceNodes st \<Longrightarrow>
          reachable st'"

text \<open>Every playing source node is the one that \<open>sourceNodesRef\<close> holds for its track.\<close>

definition registered :: "app \<Rightarrow> bool" where
  "registered st =
     (\<forall>a < length (src_heap st). \<not> sn_stopped (src_heap st ! a) \<longrightarrow>
        sourceNodes st (sn_track (src_heap st ! a)) = Some a)"

section \<open>Example states\<close>

definition quiet_world :: world where
  "quiet_world =
     \<lparr>w_resume = True, w_during_resume = (\<lambda>s. s), w_during_load = (\<lambda>t s. s),
      w_decode = (\<lambda>t u. LoadError), w_during_ready = (\<lambda>s. s), w_canplay = (\<lambda>t. True),
      w_play_ok = (\<lambda>t. True), w_during_generate = (\<lambda>s. s), w_generate = (\<lambda>n. None),
      w_confirm = True\<rparr>"

definition mounted :: app where
  "mounted =
     \<lparr>tracks = [], history = [], currentBPM = Fin 120, webAudioSupported = True,
      isPlayingAll = False, audioContext = Some Running, audioBuffers = Map.empty,
      sourceNodes = Map.empty, gainNodes = Map.empty, audioRefs = Map.empty,
      loopHandlers = Map.empty, src_heap = [], gain_heap = []\<rparr>"

definition ready_track :: "nat \<Rightarrow> string \<Rightarrow> track" where
  "ready_track i n = \<lparr>t_name = n, t_id = i, t_url = Some (''blob:'' @ n), t_muted = Some False\<rparr>"

definition long_clip :: audio_buffer where
  "long_clip = \<lparr>ab_duration = 12\<rparr>"

definition short_clip :: audio_buffer where
  "short_clip = \<lparr>ab_duration = 7\<rparr>"

text \<open>Two tracks, generated and decoded: a piano clip of twelve seconds and a drum clip of
  seven.\<close>

definition two_tracks :: app where
  "two_tracks =
     mounted\<lparr>tracks := [ready_track 1 ''Piano'', ready_track 2 ''Drum Set''],
             audioBuffers := [1 \<mapsto> long_clip, 2 \<mapsto> short_clip]\<rparr>"

text \<open>Three generated tracks that are not decoded yet, and a world in which the decode of
  the second fails.\<close>

definition three_tracks :: app where
  "three_tracks =
     mounted\<lparr>tracks := [ready_track 1 ''Piano'', ready_track 2 ''Drum Set'', ready_track 3 ''Bass'']\<rparr>"

definition one_fails :: world where
  "one_fails = quiet_world\<lparr>w_decode := (\<lambda>t u. if t = 2 then LoadError else Decoded long_clip)\<rparr>"

text \<open>A browser without Web Audio.  The element of the piano has buffered its clip, the
  element of the drums has not, and in \<open>one_stalls\<close> it never does.\<close>

definition buffered_el :: audio_el where
  "buffered_el =
     \<lparr>el_paused = True, el_currentTime = 0, el_muted = False, el_readyState = 4,
      el_ended = [], el_timeupdate = []\<rparr>"

definition empty_el :: audio_el where
  "empty_el =
     \<lparr>el_paused = True, el_currentTime = 0, el_muted = False, el_readyState = 0,
      el_ended = [], el_timeupdate = []\<rparr>"

definition fallback_two :: app where
  "fallback_two =
     mounted\<lparr>tracks := [ready_track 1 ''Piano'', ready_track 2 ''Drum Set''],
             webAudioSupported := False, audioContext := None,
             audioRefs := [1 \<mapsto> buffered_el, 2 \<mapsto> empty_el]\<rparr>"

definition one_stalls :: world where
  "one_stalls = quiet_world\<lparr>w_canplay := (\<lambda>t. t \<noteq> 2)\<rparr>"

text \<open>The same browser with both elements buffered and playing.\<close>

definition fallback_playing :: app where
  "fallback_playing =
     fallback_two\<lparr>isPlayingAll := True,
                  audioRefs := [1 \<mapsto> buffered_el\<lparr>el_paused := False, el_currentTime := 3\<rparr>,
                                2 \<mapsto> buffered_el\<lparr>el_paused := False, el_currentTime := 3\<rparr>]\<rparr>"

text \<open>The two tracks playing, and the same after the button "Clear all".\<close>

definition playing_two :: app where
  "playing_two = snd (playAll (render_of two_tracks) quiet_world two_tracks)"

definition cleared :: app where
  "cleared = clearAllTracks quiet_world playing_two"

text \<open>After "Clear all" the user adds a trumpet, whose generation fails.\<close>

definition orphaned :: app where
  "orphaned = snd (addTrack (render_of cleared) quiet_world 9 ''Trumpet'' None cleared)"



text \<open>The two playing elements with the handlers that the \<open>ref\<close> callback has installed.\<close>

definition looping_two :: app where
  "looping_two = ref_update 2 20 (ref_update 1 10 fallback_playing)"

text \<open>Worlds in which the user removes track \<open>k\<close> while its clip is generated, or while it
  is decoded; the generation and the decode succeed.\<close>

definition removed_in_generation :: "nat \<Rightarrow> world" where
  "removed_in_generation k =
     quiet_world\<lparr>w_generate := (\<lambda>n. Some ''blob:clip''), w_decode := (\<lambda>t u. Decoded long_clip),
                 w_during_generate := (\<lambda>s. snd (removeTrack (render_of s) k s))\<rparr>"

definition removed_in_decode :: "nat \<Rightarrow> world" where
  "removed_in_decode k =
     quiet_world\<lparr>w_decode := (\<lambda>t u. Decoded short_clip),
                 w_during_load := (\<lambda>t s. if t = k then snd (removeTrack (render_of s) k s) else s)\<rparr>"

text \<open>A list that holds a piano track already.\<close>

definition one_piano :: app where
  "one_piano = mounted\<lparr>tracks := [ready_track 1 ''Piano'']\<rparr>"

text \<open>What \<open>stopAll\<close> and \<open>removeTrack\<close> make of an audio element whose loop handler is \<open>h\<close>.\<close>

definition stopped_el :: "nat option \<Rightarrow> audio_el \<Rightarrow> audio_el" where
  "stopped_el h audio =
     (case h of
        None \<Rightarrow> audio\<lparr>el_paused := True, el_currentTime := 0\<rparr>
      | Some handler \<Rightarrow>
          audio\<lparr>el_paused := True, el_currentTime := 0,
                el_ended := removeAll handler (el_ended audio)\<rparr>)"


text \<open>The store of source nodes after lines 906 to 910 of \<open>playTrackWebAudio\<close>, and the node
  that lines 913 to 927 create.\<close>

definition prestopped :: "app \<Rightarrow> nat \<Rightarrow> source_node list" where
  "prestopped st trackId =
     (case sourceNodes st trackId of
        None \<Rightarrow> src_heap st
      | Some existingSource \<Rightarrow> stop_node existingSource (src_heap st))"

definition new_source :: "nat \<Rightarrow> audio_buffer \<Rightarrow> nat \<Rightarrow> source_node" where
  "new_source trackId audioBuffer g =
     \<lparr>sn_track = trackId, sn_buffer = audioBuffer, sn_loop = True, sn_loopStart = 0,
      sn_loopEnd = (if MAX_LOOP_DURATION < ab_duration audioBuffer then MAX_LOOP_DURATION else 0),
      sn_stopped = False, sn_gain = g\<rparr>"

section \<open>Reading a trace\<close>

text \<open>
  \<open>pending_after p es\<close>: the tracks whose decode or readiness wait has been issued and has
  not settled, after the events \<open>es\<close>, when \<open>p\<close> were pending before.  \<open>started_tracks\<close>,
  \<open>failed_tracks\<close> and \<open>unplayable_tracks\<close> list the tracks of the start commands, of
  the failure reports and of the "cannot play" warnings of a trace, in order.
\<close>

fun pending_after :: "nat list \<Rightarrow> event list \<Rightarrow> nat list" where
  "pending_after p [] = p"
| "pending_after p (Issued t # es) = pending_after (p @ [t]) es"
| "pending_after p (Settled t ok # es) = pending_after (remove1 t p) es"
| "pending_after p (e # es) = pending_after p es"



fun started_tracks :: "event list \<Rightarrow> nat list" where
  "started_tracks [] = []"
| "started_tracks (SrcStart t a # es) = t # started_tracks es"
| "started_tracks (ElPlay t # es) = t # started_tracks es"
| "started_tracks (e # es) = started_tracks es"

fun failed_tracks :: "event list \<Rightarrow> nat list" where
  "failed_tracks [] = []"
| "failed_tracks (Settled t False # es) = t # failed_tracks es"
| "failed_tracks (e # es) = failed_tracks es"

fun unplayable_tracks :: "event list \<Rightarrow> nat list" where
  "unplayable_tracks [] = []"
| "unplayable_tracks (CannotPlay t # es) = t # unplayable_tracks es"
| "unplayable_tracks (e # es) = unplayable_tracks es"




text \<open>The list \<open>playableTracks\<close> of \<open>playAll\<close>, and whether the decode of a track succeeds.\<close>

definition playableTracks_of :: "render \<Rightarrow> track list" where
  "playableTracks_of r = filter (\<lambda>t. truthy_str (t_url t)) (r_tracks r)"

definition decodes :: "world \<Rightarrow> track \<Rightarrow> bool" where
  "decodes w t = (case t_url t of None \<Rightarrow> False | Some u \<Rightarrow> w_decode w (t_id t) u \<noteq> LoadError)"


section \<open>Facts about the rounding\<close>

declare fl_bisect.simps [simp del]

lemma two_powi_less_exp:
  assumes "(2::rat) powi a < 2 powi b"
  shows "a < b"
proof (rule ccontr)
  assume "\<not> a < b"
  then have "b \<le> a" by simp
  then have "(2::rat) powi b \<le> 2 powi a" by (intro power_int_increasing) auto
  with assms show False by simp
qed

lemma exponent_unique:
  fixes x :: rat
  assumes "2 powi e \<le> x" "x < 2 powi (e + 1)" "2 powi e' \<le> x" "x < 2 powi (e' + 1)"
  shows "e = e'"
proof -
  have "(2::rat) powi e < 2 powi (e' + 1)" using assms by linarith
  then have a: "e < e' + 1" by (rule two_powi_less_exp)
  have "(2::rat) powi e' < 2 powi (e + 1)" using assms by linarith
  then have b: "e' < e + 1" by (rule two_powi_less_exp)
  from a b show ?thesis by linarith
qed

lemma bitlen_lower:
  assumes "0 < p"
  shows "(2::rat) powi (bitlen p - 1) \<le> of_int p"
proof -
  have l: "1 \<le> bitlen p" using assms by (auto simp: bitlen_alt_def)
  have "2 ^ nat (bitlen p - 1) \<le> p" using bitlen_bounds[OF assms] by simp
  then have "(of_int (2 ^ nat (bitlen p - 1)) :: rat) \<le> of_int p" by (simp only: of_int_le_iff)
  then show ?thesis using l by (simp add: power_int_def)
qed

lemma bitlen_upper:
  assumes "0 < p"
  shows "of_int p < (2::rat) powi (bitlen p)"
proof -
  have l: "1 \<le> bitlen p" using assms by (auto simp: bitlen_alt_def)
  have "p < 2 ^ nat (bitlen p)" using bitlen_bounds[OF assms] by simp
  then have "(of_int p :: rat) < of_int (2 ^ nat (bitlen p))" by (simp only: of_int_less_iff)
  then show ?thesis using l by (simp add: power_int_def)
qed

lemma frac_bounds:
  fixes p q :: int
  assumes p: "0 < p" and q: "0 < q"
  defines "d \<equiv> bitlen p - bitlen q"
  shows "(2::rat) powi (d - 1) < of_int p / of_int q \<and> (of_int p / of_int q :: rat) < 2 powi (d + 1)"
proof -
  have qpos: "(0::rat) < of_int q" using q by simp
  have ppos: "(0::rat) \<le> of_int p" using p by simp
  have pw: "(0::rat) < 2 powi k" for k by simp
  have e1: "(2::rat) powi (d - 1) = 2 powi (bitlen p - 1) / 2 powi (bitlen q)"
    unfolding d_def by (simp add: power_int_diff)
  have e2: "(2::rat) powi (d + 1) = 2 powi (bitlen p) / 2 powi (bitlen q - 1)"
    unfolding d_def by (simp add: power_int_diff power_int_add)
  have l: "(2::rat) powi (bitlen p - 1) / 2 powi (bitlen q) < of_int p / of_int q"
    using pw bitlen_lower[OF p] qpos bitlen_upper[OF q] by (rule frac_less2)
  have u: "of_int p / of_int q < (2::rat) powi (bitlen p) / 2 powi (bitlen q - 1)"
    using ppos bitlen_upper[OF p] pw bitlen_lower[OF q] by (rule frac_less)
  from l u e1 e2 show ?thesis by simp
qed

lemma ilog2_bounds:
  fixes x :: rat
  assumes "0 < x"
  shows "2 powi (ilog2 x) \<le> x \<and> x < 2 powi (ilog2 x + 1)"
proof -
  obtain p q where pq: "quotient_of x = (p, q)" by (cases "quotient_of x")
  then have q: "0 < q" by (rule quotient_of_denom_pos)
  have x: "x = of_int p / of_int q" using pq by (rule quotient_of_div)
  have p: "0 < p" using assms q x by (simp add: zero_less_divide_iff)
  define d where "d = bitlen p - bitlen q"
  have b: "(2::rat) powi (d - 1) < x \<and> x < 2 powi (d + 1)"
    using frac_bounds[OF p q] x d_def by simp
  have i: "ilog2 x = (if 2 powi d \<le> x then d else d - 1)"
    by (simp add: ilog2_def pq d_def Let_def)
  show ?thesis using b i by auto
qed

lemma ilog2_unique:
  fixes x :: rat
  assumes "2 powi e \<le> x" "x < 2 powi (e + 1)"
  shows "ilog2 x = e"
proof -
  have "(0::rat) < 2 powi e" by simp
  with assms have "0 < x" by linarith
  then have "2 powi (ilog2 x) \<le> x \<and> x < 2 powi (ilog2 x + 1)" by (rule ilog2_bounds)
  then show ?thesis using assms exponent_unique by blast
qed

lemma fl_at:
  fixes x :: rat
  assumes "2 powi e \<le> x" "x < 2 powi (e + 1)"
  shows "fl x = round53 e x"
proof -
  have "(0::rat) < 2 powi e" by simp
  with assms have x: "0 < x" by linarith
  have "ilog2 \<bar>x\<bar> = e" using assms x by (simp add: ilog2_unique)
  moreover have "(2::rat) powi (e - 52) = 1 / 2 powi (52 - e)"
    by (simp add: power_int_diff)
  ultimately show ?thesis using x by (simp add: fl_def Let_def round53_def)
qed

lemma fl_bisect_eq:
  "2 powi lo \<le> x \<Longrightarrow> x < 2 powi hi \<Longrightarrow> fl x = fl_bisect lo hi x"
proof (induction lo hi x rule: fl_bisect.induct)
  case (1 lo hi x)
  show ?case
  proof (cases "hi \<le> lo + 1")
    case True
    have "(2::rat) powi hi \<le> 2 powi (lo + 1)" using True by (intro power_int_increasing) auto
    with "1.prems" have "x < 2 powi (lo + 1)" by linarith
    with "1.prems" have "fl x = round53 lo x" by (simp add: fl_at)
    with True show ?thesis by (simp add: fl_bisect.simps)
  next
    case False
    show ?thesis
    proof (cases "x < 2 powi ((lo + hi) div 2)")
      case True
      with False "1.IH"(1) "1.prems" have "fl x = fl_bisect lo ((lo + hi) div 2) x" by simp
      with False True show ?thesis by (subst fl_bisect.simps) simp
    next
      case ge: False
      then have "2 powi ((lo + hi) div 2) \<le> x" by simp
      with False ge "1.IH"(2) "1.prems" have "fl x = fl_bisect ((lo + hi) div 2) hi x" by simp
      with False ge show ?thesis by (subst fl_bisect.simps) simp
    qed
  qed
qed

lemma fl_range: "1 / 4 \<le> x \<Longrightarrow> x < 16384 \<Longrightarrow> fl x = fl_bisect (- 2) 14 x"
  using fl_bisect_eq[of "- 2" x 14] by simp

lemma round_even_frac:
  assumes "0 < b"
  shows "round_even (of_int a / of_int b) = round_even_frac a b"
proof -
  have fl: "\<lfloor>(of_int a / of_int b :: rat)\<rfloor> = a div b" by (rule floor_divide_of_int_eq)
  have b: "(0::rat) < of_int b" using assms by simp
  have "of_int a = (of_int (a div b) * of_int b + of_int (a mod b) :: rat)"
    by (metis of_int_add of_int_mult div_mult_mod_eq)
  then have d: "(of_int a / of_int b :: rat) - of_int (a div b) = of_int (a mod b) / of_int b"
    using b by (simp add: field_simps)
  have lt: "(of_int (a mod b) / of_int b :: rat) < 1 / 2 \<longleftrightarrow> 2 * (a mod b) < b"
  proof -
    have "(of_int (a mod b) / of_int b :: rat) < 1 / 2 \<longleftrightarrow> (of_int (2 * (a mod b)) :: rat) < of_int b"
      using b by (simp add: field_simps)
    then show ?thesis by (simp only: of_int_less_iff)
  qed
  have gt: "1 / 2 < (of_int (a mod b) / of_int b :: rat) \<longleftrightarrow> b < 2 * (a mod b)"
  proof -
    have "1 / 2 < (of_int (a mod b) / of_int b :: rat) \<longleftrightarrow> (of_int b :: rat) < of_int (2 * (a mod b))"
      using b by (simp add: field_simps)
    then show ?thesis by (simp only: of_int_less_iff)
  qed
  show ?thesis
    unfolding round_even_def Let_def fl d lt gt round_even_frac_def by simp
qed

lemma round_even_numeral_frac:
  "round_even (numeral a / numeral b) = round_even_frac (numeral a) (numeral b)"
  using round_even_frac[of "numeral b" "numeral a"] by simp

lemma round_even_numeral: "round_even (numeral a) = numeral a"
  by (simp add: round_even_def)

lemma floor_rat_numeral: "\<lfloor>numeral a / numeral b :: rat\<rfloor> = numeral a div numeral b"
  using floor_divide_of_int_eq[of "numeral a" "numeral b", where ?'a = rat] by simp

lemma ceiling_rat_numeral: "\<lceil>numeral a / numeral b :: rat\<rceil> = - (- numeral a div numeral b)"
  using ceiling_divide_eq_div[of "numeral a" "numeral b", where ?'a = rat] by simp

lemmas js_arith = jdiv_def jmul_def jadd_def jceil_def jround_def jmax_def jmin_def

lemmas fl_eval = fl_range fl_bisect.simps round53_def round_even_numeral_frac round_even_numeral
  round_even_frac_def Let_def floor_rat_numeral ceiling_rat_numeral

lemmas duration_eval = duration_agrees_def calculateOptimalDuration_def secondsPerBar_of_def
  minBars_of_def Let_def js_arith fl_eval spec_bars_def spec_secondsPerBar_def spec_targetSeconds_def


section \<open>The loop length, tempo by tempo\<close>

text \<open>
  For every whole tempo from 60 to 200, the bar count and the loop length that the
  binary64 computation yields, compared with the exact ones.  Each lemma evaluates both
  sides for the tempos of its range; \<open>duration_agrees\<close> shares the intermediate values.
\<close>

lemma in_upto: "lo \<le> b \<Longrightarrow> b \<le> hi \<Longrightarrow> b \<in> set [lo..hi]"
  by simp

lemma duration_agrees_iff:
  "duration_agrees b \<longleftrightarrow>
     minBars_of (Fin (of_int b)) (Fin 4) = Fin (of_int (spec_bars b)) \<and>
     calculateOptimalDuration (Fin (of_int b)) (Fin 4) = Fin (fl (spec_targetSeconds b))"
  by (simp add: duration_agrees_def calculateOptimalDuration_def minBars_of_def Let_def)

lemma duration_60_77: "\<forall>b \<in> set [60..77]. duration_agrees b"
  by (simp add: duration_eval)

lemma duration_78_95: "\<forall>b \<in> set [78..95]. duration_agrees b"
  by (simp add: duration_eval)

lemma duration_96_113: "\<forall>b \<in> set [96..113]. duration_agrees b"
  by (simp add: duration_eval)

lemma duration_114_131: "\<forall>b \<in> set [114..131]. duration_agrees b"
  by (simp add: duration_eval)

lemma duration_132_149: "\<forall>b \<in> set [132..149]. duration_agrees b"
  by (simp add: duration_eval)

lemma duration_150_167: "\<forall>b \<in> set [150..167]. duration_agrees b"
  by (simp add: duration_eval)

lemma duration_168_185: "\<forall>b \<in> set [168..185]. duration_agrees b"
  by (simp add: duration_eval)

lemma duration_186_200: "\<forall>b \<in> set [186..200]. duration_agrees b"
  by (simp add: duration_eval)

lemma duration_60_200:
  assumes "60 \<le> b" "b \<le> 200"
  shows "duration_agrees b"
proof -
  have c0: "60 \<le> b \<Longrightarrow> b \<le> 77 \<Longrightarrow> duration_agrees b"
    using duration_60_77 in_upto[of 60 b 77] by blast
  have c1: "78 \<le> b \<Longrightarrow> b \<le> 95 \<Longrightarrow> duration_agrees b"
    using duration_78_95 in_upto[of 78 b 95] by blast
  have c2: "96 \<le> b \<Longrightarrow> b \<le> 113 \<Longrightarrow> duration_agrees b"
    using duration_96_113 in_upto[of 96 b 113] by blast
  have c3: "114 \<le> b \<Longrightarrow> b \<le> 131 \<Longrightarrow> duration_agrees b"
    using duration_114_131 in_upto[of 114 b 131] by blast
  have c4: "132 \<le> b \<Longrightarrow> b \<le> 149 \<Longrightarrow> duration_agrees b"
    using duration_132_149 in_upto[of 132 b 149] by blast
  have c5: "150 \<le> b \<Longrightarrow> b \<le> 167 \<Longrightarrow> duration_agrees b"
    using duration_150_167 in_upto[of 150 b 167] by blast
  have c6: "168 \<le> b \<Longrightarrow> b \<le> 185 \<Longrightarrow> duration_agrees b"
    using duration_168_185 in_upto[of 168 b 185] by blast
  have c7: "186 \<le> b \<Longrightarrow> b \<le> 200 \<Longrightarrow> duration_agrees b"
    using duration_186_200 in_upto[of 186 b 200] by blast
  have "b \<le> 77 \<or> 78 \<le> b \<and> b \<le> 95 \<or> 96 \<le> b \<and> b \<le> 113 \<or> 114 \<le> b \<and> b \<le> 131 \<or>
        132 \<le> b \<and> b \<le> 149 \<or> 150 \<le> b \<and> b \<le> 167 \<or> 168 \<le> b \<and> b \<le> 185 \<or> 186 \<le> b"
    by linarith
  then show ?thesis
    using assms c0 c1 c2 c3 c4 c5 c6 c7 by blast
qed

lemma spec_bars_least:
  assumes "0 < b"
  shows "10 \<le> of_int (spec_bars b) * spec_secondsPerBar b"
    and "10 \<le> of_int k * spec_secondsPerBar b \<Longrightarrow> spec_bars b \<le> k"
proof -
  have s: "0 < spec_secondsPerBar b" using assms by (simp add: spec_secondsPerBar_def)
  have "10 / spec_secondsPerBar b \<le> of_int (spec_bars b)"
    unfolding spec_bars_def by (rule le_of_int_ceiling)
  then show "10 \<le> of_int (spec_bars b) * spec_secondsPerBar b"
    using s by (simp add: pos_divide_le_eq)
  assume "10 \<le> of_int k * spec_secondsPerBar b"
  then have "10 / spec_secondsPerBar b \<le> of_int k" using s by (simp add: pos_divide_le_eq)
  then show "spec_bars b \<le> k" unfolding spec_bars_def by (simp add: ceiling_le_iff)
qed

text \<open>
  C2.  For every whole tempo \<open>b\<close> from 60 to 200 beats per minute in 4/4, with one bar
  lasting \<open>60 / b * 4\<close> seconds: the bar count that \<open>calculateOptimalDuration\<close> computes is
  the smallest whole number of bars that lasts at least ten seconds, and the value it returns
  is the length of that many bars rounded to the millisecond (as the nearest binary64
  number).  The function is a function of the tempo alone, so the same tempo gives the same
  length.
\<close>

theorem C2_loop_duration:
  assumes "60 \<le> b" "b \<le> 200"
  shows "minBars_of (Fin (of_int b)) (Fin 4) = Fin (of_int (spec_bars b)) \<and>
         10 \<le> of_int (spec_bars b) * spec_secondsPerBar b \<and>
         (\<forall>k. 10 \<le> of_int k * spec_secondsPerBar b \<longrightarrow> spec_bars b \<le> k) \<and>
         calculateOptimalDuration (Fin (of_int b)) (Fin 4) = Fin (fl (spec_targetSeconds b))"
proof -
  have "0 < b" using assms by simp
  then show ?thesis
    using duration_60_200[OF assms] spec_bars_least[of b] by (simp add: duration_agrees_iff)
qed

text \<open>At 120 beats per minute: five bars, ten seconds.  At 90: four bars, and the binary64
  number nearest to 10.667 seconds.\<close>

theorem C2_loop_duration_witness:
  "minBars_of (Fin 120) (Fin 4) = Fin 5 \<and>
   calculateOptimalDuration (Fin 120) (Fin 4) = Fin 10 \<and>
   minBars_of (Fin 90) (Fin 4) = Fin 4 \<and>
   calculateOptimalDuration (Fin 90) (Fin 4) = Fin (fl (10667 / 1000)) \<and>
   \<bar>fl (10667 / 1000) - 10667 / 1000\<bar> < 1 / 10 ^ 15"
proof -
  have a: "spec_bars 120 = 5" "fl (spec_targetSeconds 120) = 10"
    by (simp_all add: duration_eval)
  have b: "spec_bars 90 = 4" "spec_targetSeconds 90 = 10667 / 1000"
    by (simp_all add: duration_eval)
  have c: "\<bar>fl (10667 / 1000) - 10667 / 1000\<bar> < 1 / 10 ^ 15"
    by (simp add: fl_eval)
  show ?thesis
    using C2_loop_duration[of 120] C2_loop_duration[of 90] a b c by simp
qed

section \<open>One voice\<close>

lemma length_stop_node [simp]: "length (stop_node a h) = length h"
  by (simp add: stop_node_def)

lemma nth_stop_node:
  "b < length h \<Longrightarrow> stop_node a h ! b = (if b = a then (h ! b)\<lparr>sn_stopped := True\<rparr> else h ! b)"
  by (simp add: stop_node_def)

lemma stop_node_track [simp]: "b < length h \<Longrightarrow> sn_track (stop_node a h ! b) = sn_track (h ! b)"
  by (simp add: nth_stop_node)

lemma stop_node_stopped:
  "b < length h \<Longrightarrow> sn_stopped (stop_node a h ! b) \<longleftrightarrow> b = a \<or> sn_stopped (h ! b)"
  by (simp add: nth_stop_node)

lemma length_prestopped [simp]: "length (prestopped st tid) = length (src_heap st)"
  by (simp add: prestopped_def split: option.splits)

lemma playTrackWebAudio_eq:
  assumes "audioContext st \<noteq> None" "r_webAudioSupported r" "audioBuffers st tid = Some b"
  shows "playTrackWebAudio r tid m st =
           ((case sourceNodes st tid of None \<Rightarrow> [] | Some a \<Rightarrow> [SrcStop a]) @
              [SrcStart tid (length (src_heap st))],
            st\<lparr>src_heap := prestopped st tid @ [new_source tid b (length (gain_heap st))],
               gain_heap := gain_heap st @ [\<lparr>gn_value = (if m then 0 else 1)\<rparr>],
               sourceNodes := (sourceNodes st)(tid \<mapsto> length (src_heap st)),
               gainNodes := (gainNodes st)(tid \<mapsto> length (gain_heap st))\<rparr>)"
  using assms
  by (cases "sourceNodes st tid")
     (simp_all add: playTrackWebAudio_def Let_def prestopped_def new_source_def)

lemma playTrackWebAudio_skip:
  assumes "audioContext st = None \<or> \<not> r_webAudioSupported r \<or> audioBuffers st tid = None"
  shows "playTrackWebAudio r tid m st = ([], st)"
  using assms by (auto simp: playTrackWebAudio_def)

lemma registered_mount: "src_heap st = [] \<Longrightarrow> registered st"
  by (simp add: registered_def)

lemma registered_stop: "registered st \<Longrightarrow> registered (snd (stopTrackWebAudio tid st))"
  by (auto simp: registered_def stopTrackWebAudio_def stop_node_stopped split: option.splits)

lemma registered_play: "registered st \<Longrightarrow> registered (snd (playTrackWebAudio r tid m st))"
  by (auto simp: registered_def playTrackWebAudio_def stop_node_stopped nth_append Let_def
           split: option.splits)

lemma registered_other:
  "registered st \<Longrightarrow> src_heap st' = src_heap st \<Longrightarrow> sourceNodes st' = sourceNodes st \<Longrightarrow>
   registered st'"
  by (simp add: registered_def)

lemma reachable_registered: "reachable st \<Longrightarrow> registered st"
  by (induction rule: reachable.induct)
     (auto intro: registered_mount registered_stop registered_play registered_other)

lemma all_equal_short:
  assumes "distinct xs" "\<forall>x \<in> set xs. x = c"
  shows "length xs \<le> 1"
proof (cases xs)
  case Nil
  then show ?thesis by simp
next
  case (Cons x ys)
  have "ys = []"
  proof (cases ys)
    case Nil
    then show ?thesis .
  next
    case (Cons y zs)
    with \<open>xs = x # ys\<close> assms show ?thesis by auto
  qed
  with Cons show ?thesis by simp
qed

lemma registered_one_active:
  assumes "registered st"
  shows "length (active_nodes st t) \<le> 1"
proof (cases "sourceNodes st t")
  case None
  then have "active_nodes st t = []"
    using assms by (auto simp: active_nodes_def registered_def filter_empty_conv)
  then show ?thesis by simp
next
  case (Some c)
  have "distinct (active_nodes st t)" by (simp add: active_nodes_def)
  moreover have "\<forall>a \<in> set (active_nodes st t). a = c"
    using assms Some by (auto simp: active_nodes_def registered_def)
  ultimately show ?thesis by (rule all_equal_short)
qed

lemma play_restart:
  assumes reg: "registered st"
    and ctx: "audioContext st \<noteq> None" and sup: "r_webAudioSupported r"
    and buf: "audioBuffers st tid = Some b" and src: "sourceNodes st tid = Some a"
  shows "fst (playTrackWebAudio r tid m st) = [SrcStop a, SrcStart tid (length (src_heap st))]"
    and "active_nodes (snd (playTrackWebAudio r tid m st)) tid = [length (src_heap st)]"
proof -
  show "fst (playTrackWebAudio r tid m st) = [SrcStop a, SrcStart tid (length (src_heap st))]"
    using ctx sup buf src by (simp add: playTrackWebAudio_def Let_def)
  have old: "filter (\<lambda>x. sn_track (stop_node a (src_heap st) ! x) = tid \<and>
                          \<not> sn_stopped (stop_node a (src_heap st) ! x)) [0..<length (src_heap st)] = []"
    using reg src by (auto simp: filter_empty_conv registered_def stop_node_stopped)
  have "active_nodes (snd (playTrackWebAudio r tid m st)) tid =
        filter (\<lambda>x. sn_track (stop_node a (src_heap st) ! x) = tid \<and>
                    \<not> sn_stopped (stop_node a (src_heap st) ! x)) [0..<length (src_heap st)] @
        [length (src_heap st)]"
    using ctx sup buf src
    by (auto simp: playTrackWebAudio_def Let_def active_nodes_def nth_append intro: filter_cong)
  with old show "active_nodes (snd (playTrackWebAudio r tid m st)) tid = [length (src_heap st)]"
    by simp
qed

text \<open>
  C6.  In every state that the component can reach, a track has at most one playing source
  node, and it still has at most one after any call of \<open>playTrackWebAudio\<close>.  When such a
  call finds a source node registered for the track, it first stops that node and only
  then starts the new one, which is afterwards the only playing node of the track.
\<close>

theorem C6_one_active_node:
  assumes "reachable st"
  shows "length (active_nodes st t) \<le> 1 \<and>
         length (active_nodes (snd (playTrackWebAudio r tid m st)) t) \<le> 1 \<and>
         (\<forall>a b. audioContext st \<noteq> None \<and> r_webAudioSupported r \<and>
                 audioBuffers st tid = Some b \<and> sourceNodes st tid = Some a \<longrightarrow>
            fst (playTrackWebAudio r tid m st) = [SrcStop a, SrcStart tid (length (src_heap st))] \<and>
            active_nodes (snd (playTrackWebAudio r tid m st)) tid = [length (src_heap st)])"
proof -
  have reg: "registered st" using assms by (rule reachable_registered)
  have "reachable (snd (playTrackWebAudio r tid m st))" using assms by (rule reachable.play)
  then have "registered (snd (playTrackWebAudio r tid m st))" by (rule reachable_registered)
  then show ?thesis
    using reg registered_one_active play_restart[OF reg] by blast
qed

text \<open>
  C3.  When \<open>playTrackWebAudio\<close> starts a voice for a decoded clip, the new source node
  loops; if the clip is longer than \<open>MAX_LOOP_DURATION\<close>, which is ten seconds, the node's
  loop attributes are 0 and ten seconds and its loop region is exactly from 0 to ten
  seconds; otherwise the attributes keep their defaults and the loop region is the whole
  clip.
\<close>

theorem C3_loop_clamp:
  assumes "audioContext st \<noteq> None" "r_webAudioSupported r" "audioBuffers st tid = Some b"
  shows "MAX_LOOP_DURATION = 10 \<and>
         (let st' = snd (playTrackWebAudio r tid m st); a = length (src_heap st); n = src_heap st' ! a
          in sourceNodes st' tid = Some a \<and> length (src_heap st') = Suc a \<and>
             last (fst (playTrackWebAudio r tid m st)) = SrcStart tid a \<and>
             sn_buffer n = b \<and> sn_loop n \<and> \<not> sn_stopped n \<and> sn_loopStart n = 0 \<and>
             (if MAX_LOOP_DURATION < ab_duration b
              then sn_loopEnd n = MAX_LOOP_DURATION \<and> loop_region n = Some (0, MAX_LOOP_DURATION)
              else sn_loopEnd n = 0 \<and> loop_region n = Some (0, ab_duration b)))"
  unfolding Let_def playTrackWebAudio_eq[OF assms]
  by (simp add: nth_append new_source_def loop_region_def MAX_LOOP_DURATION_def)

section \<open>Muting\<close>

lemma length_set_gain [simp]: "length (set_gain g v h) = length h"
  by (simp add: set_gain_def)








section \<open>Stopping\<close>

lemma snd_case_prod [simp]: "snd (case p of (ev, x) \<Rightarrow> (f ev, x)) = snd p"
  by (cases p) simp

lemma fst_case_prod [simp]: "fst (case p of (ev, x) \<Rightarrow> (f ev, x)) = f (fst p)"
  by (cases p) simp

lemma stopTrackWebAudio_twice:
  "stopTrackWebAudio tid (snd (stopTrackWebAudio tid st)) = ([], snd (stopTrackWebAudio tid st))"
  by (simp add: stopTrackWebAudio_def split: option.splits)

lemma stop_web_sourceNodes:
  "sourceNodes (snd (stop_web ts st)) k = (if k \<in> t_id ` set ts then None else sourceNodes st k)"
  by (induction ts arbitrary: st)
     (auto simp: stopTrackWebAudio_def split_beta Let_def split: option.splits)

lemma stop_web_length [simp]: "length (src_heap (snd (stop_web ts st))) = length (src_heap st)"
  by (induction ts arbitrary: st)
     (auto simp: stopTrackWebAudio_def split_beta Let_def split: option.splits)

lemma stop_web_stopped:
  "a < length (src_heap st) \<Longrightarrow>
   sn_stopped (src_heap (snd (stop_web ts st)) ! a) \<longleftrightarrow>
     sn_stopped (src_heap st ! a) \<or> (\<exists>t \<in> set ts. sourceNodes st (t_id t) = Some a)"
proof (induction ts arbitrary: st)
  case Nil
  then show ?case by simp
next
  case (Cons t ts)
  show ?case
  proof (cases "sourceNodes st (t_id t)")
    case None
    then have "snd (stop_web (t # ts) st) = snd (stop_web ts st)"
      by (simp add: stopTrackWebAudio_def split_beta)
    with Cons None show ?thesis by auto
  next
    case (Some c)
    define st1 where "st1 = snd (stopTrackWebAudio (t_id t) st)"
    have e: "snd (stop_web (t # ts) st) = snd (stop_web ts st1)"
      by (simp add: st1_def split_beta)
    have h: "src_heap st1 = stop_node c (src_heap st)"
      and s: "sourceNodes st1 = (sourceNodes st)(t_id t := None)"
      using Some by (simp_all add: st1_def stopTrackWebAudio_def)
    have "a < length (src_heap st1)" using Cons.prems h by simp
    then have "sn_stopped (src_heap (snd (stop_web ts st1)) ! a) \<longleftrightarrow>
               sn_stopped (src_heap st1 ! a) \<or> (\<exists>t \<in> set ts. sourceNodes st1 (t_id t) = Some a)"
      by (rule Cons.IH)
    moreover have "sn_stopped (src_heap st1 ! a) \<longleftrightarrow> a = c \<or> sn_stopped (src_heap st ! a)"
      using Cons.prems by (simp add: h stop_node_stopped)
    moreover have "(\<exists>t' \<in> set ts. sourceNodes st1 (t_id t') = Some a) \<or> a = c \<longleftrightarrow>
                   (\<exists>t' \<in> set (t # ts). sourceNodes st (t_id t') = Some a)"
      using Some by (force simp: s split: if_splits)
    ultimately show ?thesis unfolding e by blast
  qed
qed

lemma stop_web_none:
  "\<forall>t \<in> set ts. sourceNodes st (t_id t) = None \<Longrightarrow> stop_web ts st = ([], st)"
  by (induction ts arbitrary: st) (auto simp: stopTrackWebAudio_def)

lemma stop_web_track [simp]:
  "a < length (src_heap st) \<Longrightarrow>
   sn_track (src_heap (snd (stop_web ts st)) ! a) = sn_track (src_heap st ! a)"
  by (induction ts arbitrary: st)
     (auto simp: stopTrackWebAudio_def split_beta Let_def split: option.splits)

lemma stop_web_frame [simp]:
  "isPlayingAll (snd (stop_web ts st)) = isPlayingAll st"
  "audioRefs (snd (stop_web ts st)) = audioRefs st"
  "loopHandlers (snd (stop_web ts st)) = loopHandlers st"
  by (induction ts arbitrary: st)
     (auto simp: stopTrackWebAudio_def split_beta Let_def split: option.splits)

lemma stop_element_eq:
  "stop_element i audio st =
     st\<lparr>audioRefs := (audioRefs st)(i \<mapsto> stopped_el (loopHandlers st i) audio),
        loopHandlers := (loopHandlers st)(i := None)\<rparr>"
  by (auto simp: stop_element_def stopped_el_def Let_def fun_upd_idem split: option.splits)

lemma stopped_el_twice [simp]: "stopped_el None (stopped_el h audio) = stopped_el h audio"
  by (simp add: stopped_el_def split: option.splits)

lemma stop_elements_frame [simp]:
  "isPlayingAll (snd (stop_elements ts st)) = isPlayingAll st"
  "sourceNodes (snd (stop_elements ts st)) = sourceNodes st"
  "src_heap (snd (stop_elements ts st)) = src_heap st"
  by (induction ts arbitrary: st)
     (auto simp: stop_element_eq split_beta Let_def split: option.splits)

lemma stop_elements_Cons:
  "snd (stop_elements (t # ts) st) =
     snd (stop_elements ts
       (case audioRefs st (t_id t) of
          None \<Rightarrow> st
        | Some audio \<Rightarrow> if truthy_str (t_url t) then stop_element (t_id t) audio st else st))"
  by (simp add: split_beta Let_def split: option.splits)

lemma stop_elements_audioRefs:
  "audioRefs (snd (stop_elements ts st)) k =
     (if k \<in> t_id ` {t \<in> set ts. truthy_str (t_url t)}
      then map_option (stopped_el (loopHandlers st k)) (audioRefs st k)
      else audioRefs st k) \<and>
   loopHandlers (snd (stop_elements ts st)) k =
     (if k \<in> t_id ` {t \<in> set ts. truthy_str (t_url t)} \<and> audioRefs st k \<noteq> None
      then None else loopHandlers st k)"
proof (induction ts arbitrary: st)
  case Nil
  then show ?case by simp
next
  case (Cons t ts)
  show ?case
  proof (cases "audioRefs st (t_id t)")
    case None
    then have "snd (stop_elements (t # ts) st) = snd (stop_elements ts st)"
      by (simp add: stop_elements_Cons)
    then show ?thesis using Cons.IH[of st] None by auto
  next
    case (Some audio)
    show ?thesis
    proof (cases "truthy_str (t_url t)")
      case False
      then have "snd (stop_elements (t # ts) st) = snd (stop_elements ts st)"
        using Some by (simp add: stop_elements_Cons)
      then show ?thesis using Cons.IH[of st] False by auto
    next
      case True
      define st1 where "st1 = stop_element (t_id t) audio st"
      have e: "snd (stop_elements (t # ts) st) = snd (stop_elements ts st1)"
        using Some True by (simp add: stop_elements_Cons st1_def)
      have a: "audioRefs st1 = (audioRefs st)(t_id t \<mapsto> stopped_el (loopHandlers st (t_id t)) audio)"
        and l: "loopHandlers st1 = (loopHandlers st)(t_id t := None)"
        by (simp_all add: st1_def stop_element_eq)
      show ?thesis
      proof (cases "k = t_id t")
        case k: True
        then show ?thesis
          unfolding e using Cons.IH[of st1] Some True by (simp add: a l)
      next
        case k: False
        then show ?thesis
          unfolding e using Cons.IH[of st1] Some True by (auto simp: a l)
      qed
    qed
  qed
qed

lemma stop_elements_fixed:
  "\<forall>t \<in> set ts. truthy_str (t_url t) \<longrightarrow>
     (\<forall>audio. audioRefs st (t_id t) = Some audio \<longrightarrow>
        stopped_el None audio = audio \<and> loopHandlers st (t_id t) = None) \<Longrightarrow>
   snd (stop_elements ts st) = st"
proof (induction ts arbitrary: st)
  case Nil
  then show ?case by simp
next
  case (Cons t ts)
  have step: "(case audioRefs st (t_id t) of
                 None \<Rightarrow> st
               | Some audio \<Rightarrow> if truthy_str (t_url t) then stop_element (t_id t) audio st else st) = st"
    using Cons.prems by (auto simp: stop_element_eq fun_upd_idem split: option.splits)
  have "snd (stop_elements ts st) = st" using Cons.prems by (intro Cons.IH) simp
  then show ?case by (simp only: stop_elements_Cons step)
qed

lemma stop_elements_twice:
  "snd (stop_elements ts (snd (stop_elements ts st))) = snd (stop_elements ts st)"
proof (rule stop_elements_fixed, intro ballI impI allI)
  fix t audio'
  assume t: "t \<in> set ts" "truthy_str (t_url t)"
    and a: "audioRefs (snd (stop_elements ts st)) (t_id t) = Some audio'"
  have in_set: "t_id t \<in> t_id ` {t \<in> set ts. truthy_str (t_url t)}" using t by blast
  from a in_set obtain audio where au: "audioRefs st (t_id t) = Some audio"
    and eq: "audio' = stopped_el (loopHandlers st (t_id t)) audio"
    using stop_elements_audioRefs[of ts st "t_id t"] by (auto simp: map_option_case split: option.splits)
  have "loopHandlers (snd (stop_elements ts st)) (t_id t) = None"
    using stop_elements_audioRefs[of ts st "t_id t"] in_set au by simp
  then show "stopped_el None audio' = audio' \<and> loopHandlers (snd (stop_elements ts st)) (t_id t) = None"
    using eq by simp
qed

lemma stopAll_snd:
  "snd (stopAll r st) =
     snd (stop_elements (r_tracks r)
       (if r_webAudioSupported r then snd (stop_web (r_tracks r) (st\<lparr>isPlayingAll := False\<rparr>))
        else st\<lparr>isPlayingAll := False\<rparr>))"
  by (simp add: stopAll_def Let_def split_beta)

lemma stopAll_not_playing [simp]: "\<not> isPlayingAll (snd (stopAll r st))"
  by (simp add: stopAll_snd)

lemma stopAll_twice: "snd (stopAll r (snd (stopAll r st))) = snd (stopAll r st)"
proof -
  define st2 where "st2 = snd (stopAll r st)"
  have p: "st2\<lparr>isPlayingAll := False\<rparr> = st2"
    by (simp add: st2_def)
  show ?thesis
  proof (cases "r_webAudioSupported r")
    case True
    have "\<forall>t \<in> set (r_tracks r). sourceNodes st2 (t_id t) = None"
      using True by (simp add: st2_def stopAll_snd stop_web_sourceNodes)
    then have w: "snd (stop_web (r_tracks r) st2) = st2" by (simp add: stop_web_none)
    have "snd (stopAll r st2) = snd (stop_elements (r_tracks r) st2)"
      using True by (simp add: stopAll_snd[of r st2] p w)
    also have "\<dots> = st2"
      using True unfolding st2_def stopAll_snd by (simp add: stop_elements_twice)
    finally show ?thesis by (simp add: st2_def)
  next
    case False
    have "snd (stopAll r st2) = snd (stop_elements (r_tracks r) st2)"
      using False by (simp add: stopAll_snd[of r st2] p)
    also have "\<dots> = st2"
      using False unfolding st2_def stopAll_snd by (simp add: stop_elements_twice)
    finally show ?thesis by (simp add: st2_def)
  qed
qed

lemma stopAll_sources:
  assumes "r_webAudioSupported r" "t \<in> set (r_tracks r)"
  shows "sourceNodes (snd (stopAll r st)) (t_id t) = None"
  using assms by (simp add: stopAll_snd stop_web_sourceNodes)

lemma stopAll_silences:
  assumes sup: "r_webAudioSupported r" and t: "t \<in> set (r_tracks r)" and reg: "registered st"
  shows "active_nodes (snd (stopAll r st)) (t_id t) = []"
proof -
  define st0 where "st0 = st\<lparr>isPlayingAll := False\<rparr>"
  have h: "src_heap (snd (stopAll r st)) = src_heap (snd (stop_web (r_tracks r) st0))"
    using sup by (simp add: stopAll_snd st0_def)
  have len: "length (src_heap (snd (stop_web (r_tracks r) st0))) = length (src_heap st)"
    by (simp add: st0_def)
  have "\<not> (sn_track (src_heap (snd (stop_web (r_tracks r) st0)) ! a) = t_id t \<and>
           \<not> sn_stopped (src_heap (snd (stop_web (r_tracks r) st0)) ! a))"
    if a: "a < length (src_heap st)" for a
  proof
    assume c: "sn_track (src_heap (snd (stop_web (r_tracks r) st0)) ! a) = t_id t \<and>
               \<not> sn_stopped (src_heap (snd (stop_web (r_tracks r) st0)) ! a)"
    have a0: "a < length (src_heap st0)" using a by (simp add: st0_def)
    have tr: "sn_track (src_heap st ! a) = t_id t"
      using c stop_web_track[OF a0, of "r_tracks r"] by (simp add: st0_def)
    have ns: "\<not> sn_stopped (src_heap st ! a)" and nr: "sourceNodes st (t_id t) \<noteq> Some a"
      using c stop_web_stopped[OF a0, of "r_tracks r"] t by (auto simp: st0_def)
    from reg a ns tr have "sourceNodes st (t_id t) = Some a" by (auto simp: registered_def)
    with nr show False by simp
  qed
  then show ?thesis
    unfolding active_nodes_def h len by (auto simp: filter_empty_conv)
qed

lemma stopAll_elements:
  assumes t: "t \<in> set (r_tracks r)" "truthy_str (t_url t)" and a: "audioRefs st (t_id t) = Some audio"
  shows "audioRefs (snd (stopAll r st)) (t_id t) = Some (stopped_el (loopHandlers st (t_id t)) audio)"
    and "loopHandlers (snd (stopAll r st)) (t_id t) = None"
proof -
  have in_set: "t_id t \<in> t_id ` {t \<in> set (r_tracks r). truthy_str (t_url t)}" using t by blast
  show "audioRefs (snd (stopAll r st)) (t_id t) = Some (stopped_el (loopHandlers st (t_id t)) audio)"
    using in_set a by (simp add: stopAll_snd stop_elements_audioRefs)
  show "loopHandlers (snd (stopAll r st)) (t_id t) = None"
    using in_set a by (simp add: stopAll_snd stop_elements_audioRefs)
qed

lemma stopped_el_props:
  "el_paused (stopped_el h audio) \<and> el_currentTime (stopped_el h audio) = 0 \<and>
   (\<forall>x. h = Some x \<longrightarrow> x \<notin> set (el_ended (stopped_el h audio)))"
  by (simp add: stopped_el_def split: option.splits)

lemma stop_elements_nothing: "audioRefs st = Map.empty \<Longrightarrow> stop_elements ts st = ([], st)"
  by (induction ts) simp_all

lemma stopAll_nothing:
  assumes "sourceNodes st = Map.empty" "audioRefs st = Map.empty"
  shows "stopAll r st = ([], st\<lparr>isPlayingAll := False\<rparr>)"
  using assms by (simp add: stopAll_def Let_def stop_web_none stop_elements_nothing)

text \<open>
  One call of \<open>stopAll\<close>, and two calls with nothing between them.  \<open>stopAll\<close> ends with
  the engine marked as not playing.  For every track of the list of its render: after the
  call no source node is registered for it and, in a state the component can reach, none of
  its source nodes is playing; if the track has a URL and an audio element, the element is
  paused at position 0, and its loop handler is neither a listener of \<open>ended\<close> any more nor
  registered in \<open>loopHandlers\<close>.  A second call of \<open>stopAll\<close> that follows the first at
  once leaves the state as the first one left it, a second call of \<open>stopTrackWebAudio\<close> does
  nothing, and with no voice and no audio element \<open>stopAll\<close> only clears the playing flag.
  The listeners of \<open>timeupdate\<close> stay, and the next commit installs a loop handler again
  (\<open>ref_update\<close>).
\<close>

lemma stopAll_effects:
  "\<not> isPlayingAll (snd (stopAll r st)) \<and>
   snd (stopAll r (snd (stopAll r st))) = snd (stopAll r st) \<and>
   stopTrackWebAudio tid (snd (stopTrackWebAudio tid st)) = ([], snd (stopTrackWebAudio tid st)) \<and>
   (\<forall>t \<in> set (r_tracks r).
      (r_webAudioSupported r \<longrightarrow>
         sourceNodes (snd (stopAll r st)) (t_id t) = None \<and>
         (reachable st \<longrightarrow> active_nodes (snd (stopAll r st)) (t_id t) = [])) \<and>
      (truthy_str (t_url t) \<longrightarrow>
         (\<forall>audio. audioRefs st (t_id t) = Some audio \<longrightarrow>
            (\<exists>audio'. audioRefs (snd (stopAll r st)) (t_id t) = Some audio' \<and>
               el_paused audio' \<and> el_currentTime audio' = 0 \<and>
               loopHandlers (snd (stopAll r st)) (t_id t) = None \<and>
               (\<forall>h. loopHandlers st (t_id t) = Some h \<longrightarrow> h \<notin> set (el_ended audio')))))) \<and>
   (sourceNodes st = Map.empty \<and> audioRefs st = Map.empty \<longrightarrow>
      stopAll r st = ([], st\<lparr>isPlayingAll := False\<rparr>))"
proof (intro conjI ballI impI allI)
  show "\<not> isPlayingAll (snd (stopAll r st))" by simp
  show "snd (stopAll r (snd (stopAll r st))) = snd (stopAll r st)" by (rule stopAll_twice)
  show "stopTrackWebAudio tid (snd (stopTrackWebAudio tid st)) = ([], snd (stopTrackWebAudio tid st))"
    by (rule stopTrackWebAudio_twice)
next
  fix t
  assume "t \<in> set (r_tracks r)" "r_webAudioSupported r"
  then show "sourceNodes (snd (stopAll r st)) (t_id t) = None" by (simp add: stopAll_sources)
next
  fix t
  assume "t \<in> set (r_tracks r)" "r_webAudioSupported r" "reachable st"
  then show "active_nodes (snd (stopAll r st)) (t_id t) = []"
    by (simp add: stopAll_silences reachable_registered)
next
  fix t audio
  assume t: "t \<in> set (r_tracks r)" "truthy_str (t_url t)" "audioRefs st (t_id t) = Some audio"
  show "\<exists>audio'. audioRefs (snd (stopAll r st)) (t_id t) = Some audio' \<and>
          el_paused audio' \<and> el_currentTime audio' = 0 \<and>
          loopHandlers (snd (stopAll r st)) (t_id t) = None \<and>
          (\<forall>h. loopHandlers st (t_id t) = Some h \<longrightarrow> h \<notin> set (el_ended audio'))"
    using stopAll_elements[OF t] stopped_el_props[of "loopHandlers st (t_id t)" audio] by blast
next
  assume "sourceNodes st = Map.empty \<and> audioRefs st = Map.empty"
  then show "stopAll r st = ([], st\<lparr>isPlayingAll := False\<rparr>)" by (simp add: stopAll_nothing)
qed

section \<open>Playing all tracks\<close>

lemma pending_after_append:
  "pending_after p (xs @ ys) = pending_after (pending_after p xs) ys"
  by (induction p xs rule: pending_after.induct) simp_all





lemma loadAudioBuffer_events:
  "fst (loadAudioBuffer r w t u st) = [] \<or>
   (\<exists>ok. fst (loadAudioBuffer r w t u st) = [Issued t, Suspend, Settled t ok])"
  by (auto simp: loadAudioBuffer_def Let_def split: load_outcome.splits option.splits)

lemma load_missing_events:
  "(\<forall>x \<in> set (fst (load_missing r w ts st)). \<not> is_start x) \<and>
   pending_after [] (fst (load_missing r w ts st)) = []"
proof (induction ts arbitrary: st)
  case Nil
  then show ?case by simp
next
  case (Cons t ts)
  show ?case
  proof (cases "audioBuffers st (t_id t) \<noteq> None")
    case True
    then have "fst (load_missing r w (t # ts) st) = Cached (t_id t) # fst (load_missing r w ts st)"
      by (simp add: split_beta)
    then show ?thesis using Cons.IH[of st] by (simp add: is_start_def)
  next
    case False
    show ?thesis
    proof (cases "truthy_str (t_url t)")
      case no: False
      then have "fst (load_missing r w (t # ts) st) = fst (load_missing r w ts st)"
        using False by (simp add: truthy_str_def split: option.splits)
      then show ?thesis using Cons.IH[of st] by simp
    next
      case yes: True
      then obtain u where u: "t_url t = Some u" "u \<noteq> []"
        by (auto simp: truthy_str_def split: option.splits)
      define st1 where "st1 = snd (loadAudioBuffer r w (t_id t) u st)"
      have e: "fst (load_missing r w (t # ts) st) =
               fst (loadAudioBuffer r w (t_id t) u st) @ Suspend # fst (load_missing r w ts st1)"
        using False u by (simp add: split_beta st1_def)
      from loadAudioBuffer_events[of r w "t_id t" u st] show ?thesis
        unfolding e using Cons.IH[of st1]
        by (auto simp: is_start_def pending_after_append)
    qed
  qed
qed



lemma play_elements_nothing [simp]: "fst (pause_elements [] st) = []"
  by simp

text \<open>The trace of \<open>playAll\<close>, branch by branch.\<close>

lemma playAll_events:
  fixes r w st
  defines "pl \<equiv> playableTracks_of r"
    and "ev0 \<equiv> fst (pause_elements (r_tracks r) st)"
    and "st0 \<equiv> snd (pause_elements (r_tracks r) st)"
  defines "ev1 \<equiv> (if audioContext st0 = Some Suspended then [Suspend] else [])"
    and "st2 \<equiv> (if audioContext st0 = Some Suspended
                 then (w_during_resume w st0)\<lparr>audioContext := Some Running\<rparr>
                 else st0)\<lparr>isPlayingAll := True\<rparr>"
  defines "ids \<equiv> fst (prepare_elements pl st2)"
    and "st3 \<equiv> snd (prepare_elements pl st2)"
  obtains
    (none) "pl = []" "fst (playAll r w st) = [NoTracksAlert]"
  | (refused) "pl \<noteq> []" "fst (playAll r w st) = ev0 @ [Suspend, PlayAllError]"
  | (web) "pl \<noteq> []" "r_webAudioSupported r" "audioContext st2 \<noteq> None"
      "fst (playAll r w st) =
         ev0 @ ev1 @ fst (load_missing r w pl st2) @
         fst (start_loaded r pl (snd (load_missing r w pl st2)))"
  | (no_elements) "pl \<noteq> []" "ids = []" "fst (playAll r w st) = ev0 @ ev1"
  | (fallback) "pl \<noteq> []" "ids \<noteq> []" "\<not> (r_webAudioSupported r \<and> audioContext st2 \<noteq> None)"
      "find (\<lambda>i. \<not> el_ready w st3 i) ids = None"
      "fst (playAll r w st) =
         ev0 @ ev1 @ map Issued ids @ [Suspend] @ map (\<lambda>i. Settled i True) ids @
         map ElPlay ids @ [Suspend] @ map PlayRejected (filter (\<lambda>i. \<not> w_play_ok w i) ids)"
  | (timeout) late where "pl \<noteq> []" "ids \<noteq> []"
      "\<not> (r_webAudioSupported r \<and> audioContext st2 \<noteq> None)"
      "find (\<lambda>i. \<not> el_ready w st3 i) ids = Some late"
      "fst (playAll r w st) = ev0 @ ev1 @ map Issued ids @ [Suspend, Settled late False, SyncError]"
proof (cases "pl = []")
  case True
  then have "fst (playAll r w st) = [NoTracksAlert]"
    by (simp add: playAll_def pl_def playableTracks_of_def)
  with True show ?thesis by (rule none)
next
  case pl: False
  show ?thesis
  proof (cases "audioContext st0 = Some Suspended \<and> \<not> w_resume w")
    case True
    then have "fst (playAll r w st) = ev0 @ [Suspend, PlayAllError]"
      using pl by (simp add: playAll_def pl_def playableTracks_of_def Let_def split_beta ev0_def st0_def)
    with pl show ?thesis by (rule refused)
  next
    case res: False
    show ?thesis
    proof (cases "r_webAudioSupported r \<and> audioContext st2 \<noteq> None")
      case True
      have "fst (playAll r w st) =
              ev0 @ ev1 @ fst (load_missing r w pl st2) @
              fst (start_loaded r pl (snd (load_missing r w pl st2)))"
        using pl res True
        by (auto simp: playAll_def pl_def playableTracks_of_def Let_def split_beta ev0_def st0_def
                 ev1_def st2_def)
      with pl True show ?thesis by (intro web) simp_all
    next
      case fb: False
      show ?thesis
      proof (cases "ids = []")
        case True
        then have "fst (playAll r w st) = ev0 @ ev1"
          using pl res fb
          by (auto simp: playAll_def pl_def playableTracks_of_def Let_def split_beta ev0_def st0_def
                   ev1_def st2_def ids_def)
        with pl True show ?thesis by (rule no_elements)
      next
        case ne: False
        show ?thesis
        proof (cases "find (\<lambda>i. \<not> el_ready w st3 i) ids")
          case None
          have "fst (playAll r w st) =
                  ev0 @ ev1 @ map Issued ids @ [Suspend] @ map (\<lambda>i. Settled i True) ids @
                  map ElPlay ids @ [Suspend] @ map PlayRejected (filter (\<lambda>i. \<not> w_play_ok w i) ids)"
            using pl res fb ne None
            by (auto simp: playAll_def pl_def playableTracks_of_def Let_def split_beta ev0_def
                     st0_def ev1_def st2_def ids_def st3_def)
          with pl ne fb None show ?thesis by (rule fallback)
        next
          case (Some late)
          have "fst (playAll r w st) =
                  ev0 @ ev1 @ map Issued ids @ [Suspend, Settled late False, SyncError]"
            using pl res fb ne Some
            by (auto simp: playAll_def pl_def playableTracks_of_def Let_def split_beta ev0_def
                     st0_def ev1_def st2_def ids_def st3_def)
          with pl ne fb Some show ?thesis by (rule timeout)
        qed
      qed
    qed
  qed
qed













section \<open>One decode fails\<close>

lemma started_tracks_append [simp]:
  "started_tracks (xs @ ys) = started_tracks xs @ started_tracks ys"
  by (induction xs rule: started_tracks.induct) simp_all

lemma failed_tracks_append [simp]:
  "failed_tracks (xs @ ys) = failed_tracks xs @ failed_tracks ys"
  by (induction xs rule: failed_tracks.induct) simp_all

lemma unplayable_tracks_append [simp]:
  "unplayable_tracks (xs @ ys) = unplayable_tracks xs @ unplayable_tracks ys"
  by (induction xs rule: unplayable_tracks.induct) simp_all

lemma pause_elements_quiet:
  "started_tracks (fst (pause_elements ts st)) = [] \<and>
   failed_tracks (fst (pause_elements ts st)) = [] \<and>
   unplayable_tracks (fst (pause_elements ts st)) = [] \<and>
   audioBuffers (snd (pause_elements ts st)) = audioBuffers st \<and>
   audioContext (snd (pause_elements ts st)) = audioContext st"
  by (induction ts arbitrary: st) (auto simp: split_beta Let_def split: option.splits)

lemma loadAudioBuffer_quiet:
  assumes "r_webAudioSupported r" "audioContext st \<noteq> None" "w_during_load w = (\<lambda>t s. s)"
  shows "loadAudioBuffer r w t u st =
           (case w_decode w t u of
              Decoded b \<Rightarrow> ([Issued t, Suspend, Settled t True],
                            st\<lparr>audioBuffers := (audioBuffers st)(t \<mapsto> b)\<rparr>)
            | LoadError \<Rightarrow> ([Issued t, Suspend, Settled t False], st))"
  using assms by (auto simp: loadAudioBuffer_def Let_def split: load_outcome.splits)

lemma load_missing_quiet:
  assumes sup: "r_webAudioSupported r" and q: "w_during_load w = (\<lambda>t s. s)"
  shows "audioContext st \<noteq> None \<Longrightarrow> \<forall>t \<in> set ts. truthy_str (t_url t) \<Longrightarrow> distinct (map t_id ts) \<Longrightarrow>
     audioContext (snd (load_missing r w ts st)) = audioContext st \<and>
     (\<forall>k. audioBuffers (snd (load_missing r w ts st)) k \<noteq> None \<longleftrightarrow>
          audioBuffers st k \<noteq> None \<or> (\<exists>t \<in> set ts. t_id t = k \<and> decodes w t)) \<and>
     started_tracks (fst (load_missing r w ts st)) = [] \<and>
     unplayable_tracks (fst (load_missing r w ts st)) = [] \<and>
     failed_tracks (fst (load_missing r w ts st)) =
       map t_id (filter (\<lambda>t. audioBuffers st (t_id t) = None \<and> \<not> decodes w t) ts)"
proof (induction ts arbitrary: st)
  case Nil
  then show ?case by simp
next
  case (Cons t ts)
  from Cons.prems obtain u where u: "t_url t = Some u" "u \<noteq> []"
    by (auto simp: truthy_str_def split: option.splits)
  have rest: "\<forall>t \<in> set ts. truthy_str (t_url t)" "distinct (map t_id ts)"
    using Cons.prems by auto
  have "t_id t \<notin> t_id ` set ts" using Cons.prems by simp
  then have fresh: "\<forall>t' \<in> set ts. t_id t' \<noteq> t_id t" by (metis image_eqI)
  show ?case
  proof (cases "audioBuffers st (t_id t)")
    case (Some b)
    then have e: "load_missing r w (t # ts) st =
                  (Cached (t_id t) # fst (load_missing r w ts st), snd (load_missing r w ts st))"
      by (simp add: split_beta)
    show ?thesis
      unfolding e using Cons.IH[OF Cons.prems(1) rest] Some by auto
  next
    case None
    show ?thesis
    proof (cases "w_decode w (t_id t) u")
      case LoadError
      have l: "loadAudioBuffer r w (t_id t) u st = ([Issued (t_id t), Suspend, Settled (t_id t) False], st)"
        using loadAudioBuffer_quiet[OF sup Cons.prems(1) q] LoadError by simp
      have e: "load_missing r w (t # ts) st =
                 ([Issued (t_id t), Suspend, Settled (t_id t) False, Suspend] @ fst (load_missing r w ts st),
                  snd (load_missing r w ts st))"
        using None u by (simp add: split_beta l)
      have d: "\<not> decodes w t" using u LoadError by (simp add: decodes_def)
      show ?thesis
        unfolding e using Cons.IH[OF Cons.prems(1) rest] None d by auto
    next
      case (Decoded b)
      define st1 where "st1 = st\<lparr>audioBuffers := (audioBuffers st)(t_id t \<mapsto> b)\<rparr>"
      have l: "loadAudioBuffer r w (t_id t) u st = ([Issued (t_id t), Suspend, Settled (t_id t) True], st1)"
        using loadAudioBuffer_quiet[OF sup Cons.prems(1) q] Decoded by (simp add: st1_def)
      have e: "load_missing r w (t # ts) st =
                 ([Issued (t_id t), Suspend, Settled (t_id t) True, Suspend] @ fst (load_missing r w ts st1),
                  snd (load_missing r w ts st1))"
        using None u by (simp add: split_beta l)
      have d: "decodes w t" using u Decoded by (simp add: decodes_def)
      have c1: "audioContext st1 \<noteq> None" using Cons.prems(1) by (simp add: st1_def)
      have same: "filter (\<lambda>t. audioBuffers st1 (t_id t) = None \<and> \<not> decodes w t) ts =
                  filter (\<lambda>t. audioBuffers st (t_id t) = None \<and> \<not> decodes w t) ts"
        using fresh by (intro filter_cong) (auto simp: st1_def)
      have b1: "audioBuffers st1 k \<noteq> None \<longleftrightarrow> audioBuffers st k \<noteq> None \<or> k = t_id t" for k
        by (simp add: st1_def)
      show ?thesis
        unfolding e using Cons.IH[OF c1 rest] None d same b1
        by (auto simp: st1_def)
    qed
  qed
qed

lemma playTrackWebAudio_frame:
  "audioBuffers (snd (playTrackWebAudio r t m st)) = audioBuffers st \<and>
   audioContext (snd (playTrackWebAudio r t m st)) = audioContext st"
  by (simp add: playTrackWebAudio_def Let_def split_beta split: option.splits)

lemma playTrackWebAudio_started:
  assumes "r_webAudioSupported r" "audioContext st \<noteq> None" "audioBuffers st t \<noteq> None"
  shows "started_tracks (fst (playTrackWebAudio r t m st)) = [t] \<and>
         failed_tracks (fst (playTrackWebAudio r t m st)) = [] \<and>
         unplayable_tracks (fst (playTrackWebAudio r t m st)) = []"
proof -
  from assms(3) obtain b where b: "audioBuffers st t = Some b" by auto
  show ?thesis
    unfolding playTrackWebAudio_eq[OF assms(2) assms(1) b]
    by (cases "sourceNodes st t") simp_all
qed

lemma start_loaded_quiet:
  assumes sup: "r_webAudioSupported r"
  shows "audioContext st \<noteq> None \<Longrightarrow> \<forall>t \<in> set ts. truthy_str (t_url t) \<Longrightarrow>
     started_tracks (fst (start_loaded r ts st)) =
       map t_id (filter (\<lambda>t. audioBuffers st (t_id t) \<noteq> None) ts) \<and>
     unplayable_tracks (fst (start_loaded r ts st)) =
       map t_id (filter (\<lambda>t. audioBuffers st (t_id t) = None) ts) \<and>
     failed_tracks (fst (start_loaded r ts st)) = []"
proof (induction ts arbitrary: st)
  case Nil
  then show ?case by simp
next
  case (Cons t ts)
  have rest: "\<forall>t \<in> set ts. truthy_str (t_url t)" and url: "truthy_str (t_url t)"
    using Cons.prems by auto
  show ?case
  proof (cases "audioBuffers st (t_id t)")
    case None
    then have e: "start_loaded r (t # ts) st =
                  (CannotPlay (t_id t) # fst (start_loaded r ts st), snd (start_loaded r ts st))"
      by (simp add: split_beta)
    show ?thesis unfolding e using Cons.IH[OF Cons.prems(1) rest] None by simp
  next
    case (Some b)
    define st1 where "st1 = snd (playTrackWebAudio r (t_id t) (truthy_bool (t_muted t)) st)"
    have e: "start_loaded r (t # ts) st =
               (fst (playTrackWebAudio r (t_id t) (truthy_bool (t_muted t)) st) @ fst (start_loaded r ts st1),
                snd (start_loaded r ts st1))"
      using Some url by (simp add: split_beta st1_def)
    have f: "audioBuffers st1 = audioBuffers st" "audioContext st1 = audioContext st"
      using playTrackWebAudio_frame[of r "t_id t" "truthy_bool (t_muted t)" st] by (simp_all add: st1_def)
    have c1: "audioContext st1 \<noteq> None" using Cons.prems(1) f by simp
    have s: "audioBuffers st (t_id t) \<noteq> None" using Some by simp
    show ?thesis
      unfolding e
      using Cons.IH[OF c1 rest] playTrackWebAudio_started[OF sup Cons.prems(1) s, of "truthy_bool (t_muted t)"] Some
      by (simp add: f)
  qed
qed

text \<open>
  C4 as the code has it, on the Web Audio path.  Take a call of \<open>playAll\<close> with Web Audio
  supported and an audio context that is running (or resumes), no other handler running
  meanwhile, and playable tracks with distinct ids.  Then the call issues a start command for
  exactly the playable tracks whose buffer was already decoded or whose decode succeeds, in
  the order of the list; every other playable track gets exactly one failure report from
  \<open>loadAudioBuffer\<close> and exactly one "cannot play" warning, and no start command.  So with
  one failing decode and M successful ones, M voices start and one failure is reported.
\<close>

theorem C4_isolated_failure:
  assumes sup: "r_webAudioSupported r"
    and ctx: "audioContext st \<noteq> None"
    and res: "audioContext st = Some Suspended \<longrightarrow> w_resume w"
    and q: "quiet w"
    and d: "distinct (map t_id (playableTracks_of r))"
  shows "started_tracks (fst (playAll r w st)) =
           map t_id (filter (\<lambda>t. audioBuffers st (t_id t) \<noteq> None \<or> decodes w t) (playableTracks_of r)) \<and>
         failed_tracks (fst (playAll r w st)) =
           map t_id (filter (\<lambda>t. audioBuffers st (t_id t) = None \<and> \<not> decodes w t) (playableTracks_of r)) \<and>
         unplayable_tracks (fst (playAll r w st)) = failed_tracks (fst (playAll r w st))"
proof (cases "playableTracks_of r = []")
  case True
  then have "fst (playAll r w st) = [NoTracksAlert]"
    by (simp add: playAll_def playableTracks_of_def)
  then show ?thesis using True by simp
next
  case pl: False
  define pl where "pl = playableTracks_of r"
  define ev0 where "ev0 = fst (pause_elements (r_tracks r) st)"
  define st0 where "st0 = snd (pause_elements (r_tracks r) st)"
  define ev1 where "ev1 = (if audioContext st0 = Some Suspended then [Suspend] else [])"
  define st2 where "st2 =
    (if audioContext st0 = Some Suspended
     then (w_during_resume w st0)\<lparr>audioContext := Some Running\<rparr> else st0)\<lparr>isPlayingAll := True\<rparr>"
  define ev3 where "ev3 = fst (load_missing r w pl st2)"
  define st3 where "st3 = snd (load_missing r w pl st2)"
  define ev4 where "ev4 = fst (start_loaded r pl st3)"
  have ql: "w_during_load w = (\<lambda>t s. s)" and qr: "w_during_resume w = (\<lambda>s. s)"
    using q by (simp_all add: quiet_def)
  have p0: "started_tracks ev0 = []" "failed_tracks ev0 = []" "unplayable_tracks ev0 = []"
    "audioBuffers st0 = audioBuffers st" "audioContext st0 = audioContext st"
    using pause_elements_quiet[of "r_tracks r" st] by (simp_all add: ev0_def st0_def)
  have b2: "audioBuffers st2 = audioBuffers st" and c2: "audioContext st2 \<noteq> None"
    using p0 ctx by (auto simp: st2_def qr)
  have nores: "\<not> (audioContext st0 = Some Suspended \<and> \<not> w_resume w)"
    using res p0 by simp
  have ev: "fst (playAll r w st) = ev0 @ ev1 @ ev3 @ ev4"
    using pl nores sup c2
    by (auto simp: playAll_def playableTracks_of_def pl_def Let_def split_beta
             ev0_def st0_def ev1_def st2_def ev3_def st3_def ev4_def)
  have urls: "\<forall>t \<in> set pl. truthy_str (t_url t)" by (simp add: pl_def playableTracks_of_def)
  have dist: "distinct (map t_id pl)" using d by (simp add: pl_def)
  have l: "audioContext st3 = audioContext st2"
    "\<And>k. audioBuffers st3 k \<noteq> None \<longleftrightarrow>
          audioBuffers st2 k \<noteq> None \<or> (\<exists>t \<in> set pl. t_id t = k \<and> decodes w t)"
    "started_tracks ev3 = []" "unplayable_tracks ev3 = []"
    "failed_tracks ev3 = map t_id (filter (\<lambda>t. audioBuffers st2 (t_id t) = None \<and> \<not> decodes w t) pl)"
    using load_missing_quiet[OF sup ql c2 urls dist] by (simp_all add: ev3_def st3_def)
  have c3: "audioContext st3 \<noteq> None" using l(1) c2 by simp
  have s: "started_tracks ev4 = map t_id (filter (\<lambda>t. audioBuffers st3 (t_id t) \<noteq> None) pl)"
    "unplayable_tracks ev4 = map t_id (filter (\<lambda>t. audioBuffers st3 (t_id t) = None) pl)"
    "failed_tracks ev4 = []"
    using start_loaded_quiet[OF sup c3 urls] by (simp_all add: ev4_def)
  have inj: "inj_on t_id (set pl)" using dist by (simp add: distinct_map)
  have own: "(\<exists>t' \<in> set pl. t_id t' = t_id t \<and> decodes w t') \<longleftrightarrow> decodes w t" if "t \<in> set pl" for t
    using that inj by (auto dest: inj_onD)
  have k: "audioBuffers st3 (t_id t) \<noteq> None \<longleftrightarrow> audioBuffers st (t_id t) \<noteq> None \<or> decodes w t"
    if "t \<in> set pl" for t
  proof -
    have "audioBuffers st3 (t_id t) \<noteq> None \<longleftrightarrow>
          audioBuffers st2 (t_id t) \<noteq> None \<or> (\<exists>t' \<in> set pl. t_id t' = t_id t \<and> decodes w t')"
      by (rule l(2))
    then show ?thesis unfolding own[OF that] b2 .
  qed
  have f1: "filter (\<lambda>t. audioBuffers st3 (t_id t) \<noteq> None) pl =
            filter (\<lambda>t. audioBuffers st (t_id t) \<noteq> None \<or> decodes w t) pl"
    using k by (intro filter_cong) blast+
  have f2: "filter (\<lambda>t. audioBuffers st3 (t_id t) = None) pl =
            filter (\<lambda>t. audioBuffers st (t_id t) = None \<and> \<not> decodes w t) pl"
    using k by (intro filter_cong) blast+
  have e1: "started_tracks ev1 = []" "failed_tracks ev1 = []" "unplayable_tracks ev1 = []"
    by (simp_all add: ev1_def)
  show ?thesis
    by (simp only: ev pl_def[symmetric] started_tracks_append failed_tracks_append
          unplayable_tracks_append p0 e1 l(3,4,5) s f1 f2 b2 append_Nil append_Nil2 simp_thms)
qed



section \<open>A track removed while it is being generated\<close>

lemma started_none:
  "\<forall>x \<in> set xs. \<not> is_start x \<Longrightarrow> started_tracks xs = []"
  by (induction xs rule: started_tracks.induct) (auto simp: is_start_def)

lemma started_map [simp]:
  "started_tracks (map ElPlay ids) = ids"
  "started_tracks (map Issued ids) = []"
  "started_tracks (map (\<lambda>i. Settled i ok) ids) = []"
  "started_tracks (map PlayRejected ids) = []"
  by (induction ids) simp_all

lemma loadAudioBuffer_no_start:
  "started_tracks (fst (loadAudioBuffer r w t u st)) = []"
  using loadAudioBuffer_events[of r w t u st] by auto

lemma playTrackWebAudio_starts:
  "set (started_tracks (fst (playTrackWebAudio r t m st))) \<subseteq> {t}"
  by (simp add: playTrackWebAudio_def Let_def split_beta split: option.splits)

lemma start_loaded_starts:
  "set (started_tracks (fst (start_loaded r ts st))) \<subseteq> t_id ` set ts"
proof (induction ts arbitrary: st)
  case Nil
  then show ?case by simp
next
  case (Cons t ts)
  show ?case
    using playTrackWebAudio_starts[of r "t_id t" "truthy_bool (t_muted t)" st]
      Cons.IH[of st] Cons.IH[of "snd (playTrackWebAudio r (t_id t) (truthy_bool (t_muted t)) st)"]
    by (auto simp: split_beta)
qed

lemma prepare_elements_ids:
  "set (fst (prepare_elements ts st)) \<subseteq> t_id ` set ts"
proof (induction ts arbitrary: st)
  case Nil
  then show ?case by simp
next
  case (Cons t ts)
  show ?case
  proof (cases "audioRefs st (t_id t)")
    case None
    then show ?thesis using Cons.IH[of st] by auto
  next
    case (Some audio)
    show ?thesis
    proof (cases "truthy_str (t_url t)")
      case True
      then show ?thesis
        using Some Cons.IH[of "st\<lparr>audioRefs := (audioRefs st)(t_id t \<mapsto>
                audio\<lparr>el_currentTime := 0, el_muted := truthy_bool (t_muted t)\<rparr>)\<rparr>"]
        by (auto simp: split_beta Let_def)
    next
      case False
      then show ?thesis using Some Cons.IH[of st] by auto
    qed
  qed
qed

text \<open>\<open>playAll\<close> starts tracks of the list that its render captured, and no others.\<close>

lemma playAll_starts:
  "set (started_tracks (fst (playAll r w st))) \<subseteq> t_id ` set (playableTracks_of r)"
proof (cases r w st rule: playAll_events)
  case none
  then show ?thesis by simp
next
  case refused
  then show ?thesis by (simp add: pause_elements_quiet)
next
  case web
  have "started_tracks (fst (playAll r w st)) =
          started_tracks (fst (start_loaded r (playableTracks_of r)
            (snd (load_missing r w (playableTracks_of r)
               ((if audioContext (snd (pause_elements (r_tracks r) st)) = Some Suspended
                 then (w_during_resume w (snd (pause_elements (r_tracks r) st)))\<lparr>audioContext := Some Running\<rparr>
                 else snd (pause_elements (r_tracks r) st))\<lparr>isPlayingAll := True\<rparr>)))))"
    unfolding web(4)
    by (simp add: pause_elements_quiet started_none[OF conjunct1[OF load_missing_events]])
  then show ?thesis using start_loaded_starts by simp
next
  case no_elements
  then show ?thesis by (simp add: pause_elements_quiet)
next
  case fallback
  show ?thesis
    unfolding fallback(5) using prepare_elements_ids
    by (simp add: pause_elements_quiet)
next
  case (timeout late)
  then show ?thesis by (simp add: pause_elements_quiet)
qed

lemma removeTrack_tracks:
  "tracks (snd (removeTrack r k st)) =
     (if find (\<lambda>t. t_id t = k) (r_tracks r) = None then tracks st
      else filter (\<lambda>t. t_id t \<noteq> k) (tracks st))"
  by (simp add: removeTrack_def stopTrackWebAudio_def stop_element_def Let_def split_beta
           split: option.splits)

lemma loadAudioBuffer_tracks:
  "w_during_load w = (\<lambda>t s. s) \<Longrightarrow> tracks (snd (loadAudioBuffer r w k u st)) = tracks st"
  by (simp add: loadAudioBuffer_def Let_def split: load_outcome.splits option.splits)

lemma find_appended:
  "k \<notin> t_id ` set ts \<Longrightarrow> t_id t = k \<Longrightarrow> find (\<lambda>t. t_id t = k) (ts @ [t]) = Some t"
  by (induction ts) auto

lemma filter_fresh:
  "k \<notin> t_id ` set ts \<Longrightarrow> filter (\<lambda>t. t_id t \<noteq> k) ts = ts"
  by (induction ts) auto

lemma map_fresh:
  "k \<notin> t_id ` set ts \<Longrightarrow> map (\<lambda>t. if t_id t = k then f t else t) ts = ts"
  by (induction ts) auto

lemma addTrack_events:
  "started_tracks (fst (addTrack r w now inst style st)) = []"
  by (simp add: addTrack_def Let_def split_beta loadAudioBuffer_no_start split: option.splits)

lemma addTrack_removed:
  assumes fresh: "now \<notin> t_id ` set (tracks st)"
    and new: "find (\<lambda>t. t_name t = displayName_of inst style) (r_tracks r) = None"
    and gone: "w_during_generate w = (\<lambda>s. snd (removeTrack (render_of s) now s))"
    and q: "w_during_load w = (\<lambda>t s. s)"
  shows "tracks (snd (addTrack r w now inst style st)) = tracks st"
proof -
  define loadingTrack where
    "loadingTrack = \<lparr>t_name = displayName_of inst style, t_id = now, t_url = None, t_muted = Some False\<rparr>"
  define st1 where
    "st1 = st\<lparr>tracks := tracks st @ [loadingTrack],
              history := history st @ [Adding (displayName_of inst style)]\<rparr>"
  define st2 where "st2 = snd (removeTrack (render_of st1) now st1)"
  have f: "find (\<lambda>t. t_id t = now) (r_tracks (render_of st1)) = Some loadingTrack"
    using find_appended[OF fresh, of loadingTrack]
    by (simp add: render_of_def st1_def loadingTrack_def)
  have t2: "tracks st2 = tracks st"
    unfolding st2_def removeTrack_tracks f
    using filter_fresh[OF fresh] by (simp add: st1_def loadingTrack_def)
  have m: "map (\<lambda>t. if t_id t = now then t\<lparr>t_url := url\<rparr> else t) (tracks st2) = tracks st" for url
    unfolding t2 using map_fresh[OF fresh] by simp
  show ?thesis
    using new
    by (simp add: addTrack_def Let_def split_beta gone loadAudioBuffer_tracks[OF q] m
             st2_def[unfolded st1_def loadingTrack_def, symmetric]
             split: option.splits)
qed

text \<open>
  Claim C9, as far as it holds.  A track that is removed while \<open>generateTrack\<close> is awaited does
  not come back when \<open>addTrack\<close> resumes: the track list is as it was before the call, and
  \<open>addTrack\<close> starts no playback.  Whatever happens while it is suspended, a \<open>playAll\<close>
  whose render does not hold the track does not start it.
\<close>

theorem C9_removed_track:
  assumes "now \<notin> t_id ` set (tracks st)"
    and "find (\<lambda>t. t_name t = displayName_of inst style) (r_tracks r) = None"
    and "w_during_generate w = (\<lambda>s. snd (removeTrack (render_of s) now s))"
    and "w_during_load w = (\<lambda>t s. s)"
  shows "tracks (snd (addTrack r w now inst style st)) = tracks st \<and>
         started_tracks (fst (addTrack r w now inst style st)) = [] \<and>
         (\<forall>r' w' st'. now \<notin> t_id ` set (r_tracks r') \<longrightarrow>
            now \<notin> set (started_tracks (fst (playAll r' w' st'))))"
proof (intro conjI allI impI)
  show "tracks (snd (addTrack r w now inst style st)) = tracks st"
    using assms by (rule addTrack_removed)
  show "started_tracks (fst (addTrack r w now inst style st)) = []"
    by (rule addTrack_events)
next
  fix r' :: render and w' :: world and st' :: app
  assume "now \<notin> t_id ` set (r_tracks r')"
  then have "now \<notin> t_id ` set (playableTracks_of r')"
    by (auto simp: playableTracks_of_def)
  then show "now \<notin> set (started_tracks (fst (playAll r' w' st')))"
    using playAll_starts[of r' w' st'] by blast
qed

section \<open>A name that is already in the list\<close>

text \<open>\<open>addTrack\<close> does nothing when the list of its render holds the name.\<close>

lemma addTrack_known_name:
  assumes "find (\<lambda>t. t_name t = displayName_of inst style) (r_tracks r) \<noteq> None"
  shows "addTrack r w now inst style st = ([], st)"
  using assms by (simp add: addTrack_def)

lemma addTrack_latest_render:
  assumes "displayName_of inst style \<in> t_name ` set (tracks st)"
  shows "addTrack (render_of st) w now inst style st = ([], st)"
proof -
  from assms have "find (\<lambda>t. t_name t = displayName_of inst style) (r_tracks (render_of st)) \<noteq> None"
    by (auto simp: find_None_iff render_of_def)
  then show ?thesis by (rule addTrack_known_name)
qed



section \<open>The tempo\<close>

lemma changeBPM_tempo:
  "currentBPM (changeBPM r w newBPM st) = newBPM \<or>
   currentBPM (changeBPM r w newBPM st) = currentBPM st"
  by (simp add: changeBPM_def)

lemma presets_reachable:
  "set bpmPresets \<subseteq> set ui_tempos" "set quickPresets \<subseteq> set ui_tempos"
  by (simp_all add: bpmPresets_def quickPresets_def ui_tempos_def)

lemma minus_reachable:
  assumes "b \<in> set ui_tempos"
  shows "jmax (Fin 60) (jadd b (Fin (- 10))) \<in> set ui_tempos"
proof -
  from assms consider "b = Fin 60" | "b = Fin 70" | "b = Fin 80" | "b = Fin 90" | "b = Fin 100"
    | "b = Fin 110" | "b = Fin 120" | "b = Fin 130" | "b = Fin 140" | "b = Fin 150"
    | "b = Fin 160" | "b = Fin 170" | "b = Fin 180" | "b = Fin 190" | "b = Fin 200"
    by (auto simp: ui_tempos_def)
  then show ?thesis
    by cases (simp_all add: ui_tempos_def js_arith fl_eval)
qed

lemma plus_reachable:
  assumes "b \<in> set ui_tempos"
  shows "jmin (Fin 200) (jadd b (Fin 10)) \<in> set ui_tempos"
proof -
  from assms consider "b = Fin 60" | "b = Fin 70" | "b = Fin 80" | "b = Fin 90" | "b = Fin 100"
    | "b = Fin 110" | "b = Fin 120" | "b = Fin 130" | "b = Fin 140" | "b = Fin 150"
    | "b = Fin 160" | "b = Fin 170" | "b = Fin 180" | "b = Fin 190" | "b = Fin 200"
    by (auto simp: ui_tempos_def)
  then show ?thesis
    by cases (simp_all add: ui_tempos_def js_arith fl_eval)
qed

lemma ui_tempos_in_range:
  "b \<in> set ui_tempos \<Longrightarrow> tempo_in_range b"
  by (auto simp: ui_tempos_def tempo_in_range_def)

lemma ui_tempo_reachable:
  assumes "currentBPM st \<in> set ui_tempos"
  shows "currentBPM (ui_tempo act w st) \<in> set ui_tempos"
proof (cases act)
  case (SelectPreset i)
  show ?thesis
  proof (cases "i < length bpmPresets")
    case True
    then have "bpmPresets ! i \<in> set ui_tempos" using presets_reachable(1) nth_mem by blast
    then show ?thesis
      using assms True changeBPM_tempo[of "render_of st" w "bpmPresets ! i" st]
      by (auto simp: ui_tempo_def SelectPreset)
  next
    case False
    then show ?thesis using assms by (simp add: ui_tempo_def SelectPreset)
  qed
next
  case Minus
  have "jmax (Fin 60) (jadd (currentBPM st) (Fin (- 10))) \<in> set ui_tempos"
    using assms by (rule minus_reachable)
  then show ?thesis
    using assms changeBPM_tempo[of "render_of st" w "jmax (Fin 60) (jadd (currentBPM st) (Fin (- 10)))" st]
    by (auto simp: ui_tempo_def Minus render_of_def)
next
  case Plus
  have "jmin (Fin 200) (jadd (currentBPM st) (Fin 10)) \<in> set ui_tempos"
    using assms by (rule plus_reachable)
  then show ?thesis
    using assms changeBPM_tempo[of "render_of st" w "jmin (Fin 200) (jadd (currentBPM st) (Fin 10))" st]
    by (auto simp: ui_tempo_def Plus render_of_def)
next
  case (QuickPreset i)
  show ?thesis
  proof (cases "i < length quickPresets")
    case True
    then have "quickPresets ! i \<in> set ui_tempos" using presets_reachable(2) nth_mem by blast
    then show ?thesis
      using assms True changeBPM_tempo[of "render_of st" w "quickPresets ! i" st]
      by (auto simp: ui_tempo_def QuickPreset)
  next
    case False
    then show ?thesis using assms by (simp add: ui_tempo_def QuickPreset)
  qed
qed

text \<open>
  Claim C5, as far as it holds.  The loop length is computed for every tempo and no call
  signals an error.  \<open>changeBPM\<close> stores the tempo that it is given, unless the user declines
  the confirmation.  The tempo stays between 60 and 200 because the page starts at 120 and
  every control of the page passes a preset or clamps: from a tempo of \<open>ui_tempos\<close> each
  control leads to a tempo of \<open>ui_tempos\<close>.
\<close>

theorem C5_tempo_range:
  "calculateOptimalDuration_call bpm \<noteq> Signals InvalidTempo \<and>
   (\<exists>v. calculateOptimalDuration_call bpm = Returns v) \<and>
   (currentBPM (changeBPM r w newBPM st) = newBPM \<or>
    currentBPM (changeBPM r w newBPM st) = currentBPM st \<and> \<not> w_confirm w) \<and>
   (currentBPM st \<in> set ui_tempos \<longrightarrow>
      currentBPM (ui_tempo act w st) \<in> set ui_tempos \<and>
      tempo_in_range (currentBPM (ui_tempo act w st)))"
proof (intro conjI impI)
  show "calculateOptimalDuration_call bpm \<noteq> Signals InvalidTempo"
    by (simp add: calculateOptimalDuration_call_def)
  show "\<exists>v. calculateOptimalDuration_call bpm = Returns v"
    by (simp add: calculateOptimalDuration_call_def)
  show "currentBPM (changeBPM r w newBPM st) = newBPM \<or>
        currentBPM (changeBPM r w newBPM st) = currentBPM st \<and> \<not> w_confirm w"
    by (simp add: changeBPM_def)
next
  assume a: "currentBPM st \<in> set ui_tempos"
  then show "currentBPM (ui_tempo act w st) \<in> set ui_tempos" by (rule ui_tempo_reachable)
  then show "tempo_in_range (currentBPM (ui_tempo act w st))" by (rule ui_tempos_in_range)
qed

section \<open>Worked examples\<close>

lemma two_tracks_fields:
  "audioContext two_tracks = Some Running"
  "r_webAudioSupported (render_of two_tracks)"
  "audioBuffers two_tracks 1 = Some long_clip"
  "audioBuffers two_tracks 2 = Some short_clip"
  "src_heap two_tracks = []"
  "gain_heap two_tracks = []"
  "sourceNodes two_tracks = Map.empty"
  by (simp_all add: two_tracks_def mounted_def render_of_def)

lemma clips: "MAX_LOOP_DURATION < ab_duration long_clip" "\<not> MAX_LOOP_DURATION < ab_duration short_clip"
  "ab_duration short_clip = 7" "MAX_LOOP_DURATION = 10"
  by (simp_all add: long_clip_def short_clip_def MAX_LOOP_DURATION_def)

text \<open>The piano clip of twelve seconds loops over its first ten seconds, the drum clip of
  seven seconds over all of its seven.\<close>

theorem C3_loop_clamp_witness:
  "loop_region (src_heap (snd (playTrackWebAudio (render_of two_tracks) 1 False two_tracks)) ! 0)
     = Some (0, 10) \<and>
   loop_region (src_heap (snd (playTrackWebAudio (render_of two_tracks) 2 False two_tracks)) ! 0)
     = Some (0, 7)"
proof -
  have c: "audioContext two_tracks \<noteq> None" by (simp add: two_tracks_fields)
  have "loop_region (src_heap (snd (playTrackWebAudio (render_of two_tracks) 1 False two_tracks)) !
          length (src_heap two_tracks)) = Some (0, MAX_LOOP_DURATION)"
    using C3_loop_clamp[OF c two_tracks_fields(2) two_tracks_fields(3), of False] clips(1)
    unfolding Let_def by presburger
  moreover have "loop_region (src_heap (snd (playTrackWebAudio (render_of two_tracks) 2 False two_tracks)) !
          length (src_heap two_tracks)) = Some (0, ab_duration short_clip)"
    using C3_loop_clamp[OF c two_tracks_fields(2) two_tracks_fields(4), of False] clips(2)
    unfolding Let_def by presburger
  ultimately show ?thesis
    by (simp only: two_tracks_fields(5) clips(3,4) list.size)
qed

lemmas example_defs = render_of_def two_tracks_def three_tracks_def mounted_def quiet_world_def
  ready_track_def truthy_str_def truthy_bool_def long_clip_def short_clip_def
  MAX_LOOP_DURATION_def one_fails_def

lemma playing_two_eq:
  "playing_two =
     two_tracks\<lparr>isPlayingAll := True,
       src_heap := [new_source 1 long_clip 0, new_source 2 short_clip 1],
       gain_heap := [\<lparr>gn_value = 1\<rparr>, \<lparr>gn_value = 1\<rparr>],
       sourceNodes := [1 \<mapsto> 0, 2 \<mapsto> 1], gainNodes := [1 \<mapsto> 0, 2 \<mapsto> 1]\<rparr>"
  by (simp add: playing_two_def playAll_def playTrackWebAudio_def new_source_def Let_def example_defs)

lemma playing_two_fields:
  "audioContext playing_two \<noteq> None"
  "r_webAudioSupported (render_of playing_two)"
  "r_isPlayingAll (render_of playing_two)"
  "audioBuffers playing_two 1 = Some long_clip"
  "sourceNodes playing_two 1 = Some 0"
  "gainNodes playing_two 1 = Some 0"
  "length (src_heap playing_two) = 2"
  "length (gain_heap playing_two) = 2"
  "r_tracks (render_of playing_two) = [ready_track 1 ''Piano'', ready_track 2 ''Drum Set'']"
  by (simp_all add: playing_two_eq render_of_def two_tracks_def mounted_def)

lemma playing_two_reachable: "reachable playing_two"
proof -
  have eq: "playing_two =
          snd (playTrackWebAudio (render_of two_tracks) 2 False
            (snd (playTrackWebAudio (render_of two_tracks) 1 False (two_tracks\<lparr>isPlayingAll := True\<rparr>))))"
    by (simp add: playing_two_eq playTrackWebAudio_def new_source_def Let_def example_defs)
  have "reachable (two_tracks\<lparr>isPlayingAll := True\<rparr>)"
    by (rule reachable.mount) (simp add: two_tracks_def mounted_def)
  then show ?thesis unfolding eq by (intro reachable.play)
qed



text \<open>
  Claim C4 on the same three tracks: the first and the third are started, one failure is
  reported, for the second, which is also the one that cannot be played.
\<close>

theorem C4_isolated_failure_witness:
  "started_tracks (fst (playAll (render_of three_tracks) one_fails three_tracks)) = [1, 3] \<and>
   failed_tracks (fst (playAll (render_of three_tracks) one_fails three_tracks)) = [2] \<and>
   unplayable_tracks (fst (playAll (render_of three_tracks) one_fails three_tracks)) = [2]"
proof -
  have h: "r_webAudioSupported (render_of three_tracks)" "audioContext three_tracks \<noteq> None"
    "audioContext three_tracks = Some Suspended \<longrightarrow> w_resume one_fails" "quiet one_fails"
    "distinct (map t_id (playableTracks_of (render_of three_tracks)))"
    by (simp_all add: example_defs quiet_def playableTracks_of_def)
  have e: "map t_id (filter (\<lambda>t. audioBuffers three_tracks (t_id t) \<noteq> None \<or> decodes one_fails t)
             (playableTracks_of (render_of three_tracks))) = [1, 3]"
    "map t_id (filter (\<lambda>t. audioBuffers three_tracks (t_id t) = None \<and> \<not> decodes one_fails t)
             (playableTracks_of (render_of three_tracks))) = [2]"
    by (simp_all add: example_defs playableTracks_of_def decodes_def)
  from C4_isolated_failure[OF h] show ?thesis unfolding e by simp
qed

text \<open>
  Claim C4 does not hold in a browser without Web Audio.  The piano element is ready and
  the drum element is not ready within five seconds: the wait for the drum element fails, and
  the piano is not started either.
\<close>

theorem C4_fallback_all_or_nothing:
  "el_ready one_stalls fallback_two 1 \<and>
   fst (playAll (render_of fallback_two) one_stalls fallback_two) =
     [ElPause 1, ElPause 2, Issued 1, Issued 2, Suspend, Settled 2 False, SyncError] \<and>
   started_tracks (fst (playAll (render_of fallback_two) one_stalls fallback_two)) = [] \<and>
   failed_tracks (fst (playAll (render_of fallback_two) one_stalls fallback_two)) = [2]"
proof -
  have "fst (playAll (render_of fallback_two) one_stalls fallback_two) =
     [ElPause 1, ElPause 2, Issued 1, Issued 2, Suspend, Settled 2 False, SyncError]"
    by (simp add: playAll_def fallback_two_def one_stalls_def el_ready_def buffered_el_def
             empty_el_def Let_def example_defs)
  moreover have "el_ready one_stalls fallback_two 1"
    by (simp add: fallback_two_def one_stalls_def el_ready_def buffered_el_def example_defs)
  ultimately show ?thesis by simp
qed

text \<open>Claim C6 on the two playing tracks: starting the piano again stops its node, and the
  new node is the only one of the piano that plays.\<close>

theorem C6_one_active_node_witness:
  "reachable playing_two \<and>
   fst (playTrackWebAudio (render_of playing_two) 1 False playing_two) = [SrcStop 0, SrcStart 1 2] \<and>
   active_nodes (snd (playTrackWebAudio (render_of playing_two) 1 False playing_two)) 1 = [2] \<and>
   length (active_nodes (snd (playTrackWebAudio (render_of playing_two) 1 False playing_two)) 2) \<le> 1"
proof -
  note c = C6_one_active_node[OF playing_two_reachable, of 2 "render_of playing_two" 1 False]
  from c have "fst (playTrackWebAudio (render_of playing_two) 1 False playing_two) =
      [SrcStop 0, SrcStart 1 (length (src_heap playing_two))] \<and>
    active_nodes (snd (playTrackWebAudio (render_of playing_two) 1 False playing_two)) 1 =
      [length (src_heap playing_two)]"
    using playing_two_fields(1,2,4,5) by blast
  moreover from c
  have "length (active_nodes (snd (playTrackWebAudio (render_of playing_two) 1 False playing_two)) 2) \<le> 1"
    by blast
  ultimately show ?thesis
    using playing_two_reachable unfolding playing_two_fields(7) by blast
qed


text \<open>
  \<open>stopAll\<close> on the two playing tracks, on the two playing elements of a browser without
  Web Audio, and on two tracks of which nothing plays.
\<close>

lemma stopAll_effects_example:
  "\<not> isPlayingAll (snd (stopAll (render_of playing_two) playing_two)) \<and>
   snd (stopAll (render_of playing_two) (snd (stopAll (render_of playing_two) playing_two))) =
     snd (stopAll (render_of playing_two) playing_two) \<and>
   sourceNodes (snd (stopAll (render_of playing_two) playing_two)) 1 = None \<and>
   active_nodes (snd (stopAll (render_of playing_two) playing_two)) 1 = [] \<and>
   (\<exists>audio'. audioRefs (snd (stopAll (render_of fallback_playing) fallback_playing)) 1 = Some audio' \<and>
      el_paused audio' \<and> el_currentTime audio' = 0) \<and>
   stopAll (render_of two_tracks) two_tracks = ([], two_tracks\<lparr>isPlayingAll := False\<rparr>)"
proof -
  note a = stopAll_effects[of "render_of playing_two" playing_two 1]
  note b = stopAll_effects[of "render_of fallback_playing" fallback_playing 1]
  note c = stopAll_effects[of "render_of two_tracks" two_tracks 1]
  have piano: "ready_track 1 ''Piano'' \<in> set (r_tracks (render_of playing_two))"
    "ready_track 1 ''Piano'' \<in> set (r_tracks (render_of fallback_playing))"
    "t_id (ready_track 1 ''Piano'') = 1" "truthy_str (t_url (ready_track 1 ''Piano''))"
    by (simp add: playing_two_fields(9))
       (simp_all add: fallback_playing_def fallback_two_def example_defs)
  have el: "audioRefs fallback_playing (t_id (ready_track 1 ''Piano'')) =
      Some (buffered_el\<lparr>el_paused := False, el_currentTime := 3\<rparr>)"
    by (simp add: fallback_playing_def ready_track_def)
  have idle: "sourceNodes two_tracks = Map.empty \<and> audioRefs two_tracks = Map.empty"
    by (simp add: two_tracks_def mounted_def)
  note a4 = a[THEN conjunct2, THEN conjunct2, THEN conjunct2, THEN conjunct1, THEN bspec, OF piano(1)]
  note b4 = b[THEN conjunct2, THEN conjunct2, THEN conjunct2, THEN conjunct1, THEN bspec, OF piano(2)]
  note c5 = c[THEN conjunct2, THEN conjunct2, THEN conjunct2, THEN conjunct2]
  from a have 1: "\<not> isPlayingAll (snd (stopAll (render_of playing_two) playing_two))"
    by (rule conjunct1)
  have 2: "snd (stopAll (render_of playing_two) (snd (stopAll (render_of playing_two) playing_two))) =
     snd (stopAll (render_of playing_two) playing_two)"
    by (rule a[THEN conjunct2, THEN conjunct1])
  note w = a4[THEN conjunct1, THEN mp, OF playing_two_fields(2)]
  have 3: "sourceNodes (snd (stopAll (render_of playing_two) playing_two)) 1 = None"
    "active_nodes (snd (stopAll (render_of playing_two) playing_two)) 1 = []"
    using w[THEN conjunct1] w[THEN conjunct2, THEN mp, OF playing_two_reachable]
    unfolding piano(3) by this+
  have 4: "\<exists>audio'. audioRefs (snd (stopAll (render_of fallback_playing) fallback_playing)) 1 = Some audio' \<and>
      el_paused audio' \<and> el_currentTime audio' = 0"
    using b4[THEN conjunct2, THEN mp, OF piano(4), THEN spec, THEN mp, OF el]
    unfolding piano(3) by blast
  have 5: "stopAll (render_of two_tracks) two_tracks = ([], two_tracks\<lparr>isPlayingAll := False\<rparr>)"
    by (rule c5[THEN mp, OF idle])
  from 1 2 3 4 5 show ?thesis by (intro conjI)
qed

text \<open>
  After \<open>stopAll\<close> has removed the loop handlers of the two playing elements, the commit
  that follows \<open>setIsPlayingAll(false)\<close> installs new ones, and a second listener of
  \<open>timeupdate\<close> beside the first, which no statement removes.
\<close>

lemma stopAll_listeners_return:
  "map_option el_ended (audioRefs looping_two 1) = Some [10] \<and>
   map_option el_ended (audioRefs (snd (stopAll (render_of looping_two) looping_two)) 1) = Some [] \<and>
   loopHandlers (snd (stopAll (render_of looping_two) looping_two)) 1 = None \<and>
   map_option el_timeupdate (audioRefs (snd (stopAll (render_of looping_two) looping_two)) 1) =
     Some [10] \<and>
   map_option el_ended
     (audioRefs (ref_update 1 11 (snd (stopAll (render_of looping_two) looping_two))) 1) = Some [11] \<and>
   map_option el_timeupdate
     (audioRefs (ref_update 1 11 (snd (stopAll (render_of looping_two) looping_two))) 1) =
     Some [10, 11]"
  by (simp add: looping_two_def ref_update_def ref_attach_def ref_detach_def stopAll_def
           stop_element_def fallback_playing_def fallback_two_def buffered_el_def Let_def
           example_defs)

text \<open>
  Claim C8 at a voice whose track has left the list.  The two tracks play, the user clears
  the list, adds a trumpet and presses "Stop": \<open>stopAll\<close> goes through the list, which holds
  the trumpet only, stops nothing, and both source nodes go on playing.
\<close>

theorem C8_voices_outlive_list:
  "all_active playing_two = [0, 1] \<and>
   map t_id (tracks orphaned) = [9] \<and>
   fst (stopAll (render_of orphaned) orphaned) = [] \<and>
   all_active (snd (stopAll (render_of orphaned) orphaned)) = [0, 1]"
  by (simp add: orphaned_def addTrack_def displayName_of_def cleared_def clearAllTracks_def
           stopAll_def stopTrackWebAudio_def all_active_def playing_two_eq new_source_def Let_def
           example_defs)


text \<open>Claim C9, as amended, on the piano that is removed while it is generated.\<close>

theorem C9_removed_track_witness:
  "tracks (snd (addTrack (render_of mounted) (removed_in_generation 7) 7 ''Piano'' None mounted)) = [] \<and>
   started_tracks (fst (addTrack (render_of mounted) (removed_in_generation 7) 7 ''Piano'' None mounted)) = [] \<and>
   7 \<notin> set (started_tracks (fst (playAll (render_of two_tracks) quiet_world two_tracks)))"
proof -
  have h: "7 \<notin> t_id ` set (tracks mounted)"
    "find (\<lambda>t. t_name t = displayName_of ''Piano'' None) (r_tracks (render_of mounted)) = None"
    "w_during_generate (removed_in_generation 7) = (\<lambda>s. snd (removeTrack (render_of s) 7 s))"
    "w_during_load (removed_in_generation 7) = (\<lambda>t s. s)"
    by (simp_all add: removed_in_generation_def example_defs)
  have k: "7 \<notin> t_id ` set (r_tracks (render_of two_tracks))" "tracks mounted = []"
    by (simp_all add: example_defs)
  note c = C9_removed_track[OF h]
  from c have 1: "tracks (snd (addTrack (render_of mounted) (removed_in_generation 7) 7 ''Piano'' None mounted)) = []"
    unfolding k(2) by (rule conjunct1)
  from c have 2: "started_tracks (fst (addTrack (render_of mounted) (removed_in_generation 7) 7 ''Piano'' None mounted)) = []"
    by blast
  from c k(1) have 3: "7 \<notin> set (started_tracks (fst (playAll (render_of two_tracks) quiet_world two_tracks)))"
    by blast
  from 1 2 3 show ?thesis by (intro conjI)
qed

text \<open>
  Claim C9 does not hold.  The piano is removed while it is generated, and its clip is
  decoded and cached all the same.  The drums are removed while \<open>playAll\<close> decodes their
  clip: the clip is cached and the drums are started, though they have left the list.
\<close>

theorem C9_removed_track_cached_and_started:
  "tracks (snd (addTrack (render_of mounted) (removed_in_generation 7) 7 ''Piano'' None mounted)) = [] \<and>
   audioBuffers (snd (addTrack (render_of mounted) (removed_in_generation 7) 7 ''Piano'' None mounted)) 7 =
     Some long_clip \<and>
   map t_id (tracks (snd (playAll (render_of three_tracks) (removed_in_decode 2) three_tracks))) = [1, 3] \<and>
   audioBuffers (snd (playAll (render_of three_tracks) (removed_in_decode 2) three_tracks)) 2 =
     Some short_clip \<and>
   started_tracks (fst (playAll (render_of three_tracks) (removed_in_decode 2) three_tracks)) = [1, 2, 3]"
proof -
  have "tracks (snd (addTrack (render_of mounted) (removed_in_generation 7) 7 ''Piano'' None mounted)) = [] \<and>
    audioBuffers (snd (addTrack (render_of mounted) (removed_in_generation 7) 7 ''Piano'' None mounted)) 7 =
      Some long_clip"
    by (simp add: addTrack_def removeTrack_def stopTrackWebAudio_def loadAudioBuffer_def
             displayName_of_def removed_in_generation_def Let_def example_defs)
  moreover
  have "map t_id (tracks (snd (playAll (render_of three_tracks) (removed_in_decode 2) three_tracks))) = [1, 3] \<and>
    audioBuffers (snd (playAll (render_of three_tracks) (removed_in_decode 2) three_tracks)) 2 =
      Some short_clip \<and>
    started_tracks (fst (playAll (render_of three_tracks) (removed_in_decode 2) three_tracks)) = [1, 2, 3]"
    by (simp add: playAll_def playTrackWebAudio_def removeTrack_def stopTrackWebAudio_def
             loadAudioBuffer_def removed_in_decode_def Let_def example_defs)
  ultimately show ?thesis by (intro conjI) blast+
qed

text \<open>Claim C5, as amended, at the tempo of 120 of a page that has just been mounted: the
  plus button leads to 130.\<close>

theorem C5_tempo_range_witness:
  "currentBPM mounted \<in> set ui_tempos \<and>
   currentBPM (ui_tempo Plus quiet_world mounted) = Fin 130 \<and>
   tempo_in_range (currentBPM (ui_tempo Plus quiet_world mounted)) \<and>
   calculateOptimalDuration_call (Fin 130) \<noteq> Signals InvalidTempo"
proof -
  have h: "currentBPM mounted \<in> set ui_tempos" by (simp add: mounted_def ui_tempos_def)
  note c = C5_tempo_range[of "Fin 130" "render_of mounted" quiet_world "Fin 130" mounted Plus]
  from c h have 1: "tempo_in_range (currentBPM (ui_tempo Plus quiet_world mounted))" by blast
  from c have 2: "calculateOptimalDuration_call (Fin 130) \<noteq> Signals InvalidTempo" by (rule conjunct1)
  have 3: "currentBPM (ui_tempo Plus quiet_world mounted) = Fin 130"
    by (simp add: ui_tempo_def changeBPM_def render_of_def mounted_def js_arith fl_eval)
  from h 3 1 2 show ?thesis by (intro conjI)
qed

text \<open>
  Claim C5 does not hold.  For the tempos 0 and -120 the loop length is computed, to
  \<open>NaN\<close> and to 10 seconds, and no error is signalled; \<open>changeBPM\<close> stores a tempo of 500.
\<close>

theorem C5_no_tempo_error:
  "calculateOptimalDuration_call (Fin 0) = Returns NaN \<and>
   calculateOptimalDuration_call (Fin (- 120)) = Returns (Fin 10) \<and>
   currentBPM (changeBPM (render_of mounted) quiet_world (Fin 500) mounted) = Fin 500"
proof -
  have "calculateOptimalDuration_call (Fin 0) = Returns NaN"
    by (simp add: calculateOptimalDuration_call_def calculateOptimalDuration_def
             secondsPerBar_of_def minBars_of_def js_arith Let_def)
  moreover have "calculateOptimalDuration_call (Fin (- 120)) = Returns (Fin 10)"
    by code_simp
  moreover have "currentBPM (changeBPM (render_of mounted) quiet_world (Fin 500) mounted) = Fin 500"
    by (simp add: changeBPM_def render_of_def mounted_def)
  ultimately show ?thesis by (intro conjI)
qed

text \<open>
  Claim C10 at a voice command.  The list holds a piano track and the user says "piano".
  The speech handler calls the \<open>addTrack\<close> of the first render, whose list is empty: a
  generation request is posted and a second track named Piano is appended.
\<close>

theorem C10_voice_duplicate:
  "fst (voice_result quiet_world 2 (Some ''Piano'') None ''piano'' one_piano) =
     [GenRequest ''Piano'', Suspend] \<and>
   map t_name (tracks (snd (voice_result quiet_world 2 (Some ''Piano'') None ''piano'' one_piano))) =
     [''Piano'', ''Piano''] \<and>
   addTrack (render_of one_piano) quiet_world 2 ''Piano'' None one_piano = ([], one_piano)"
  by (simp add: voice_result_def addTrack_def first_render_def displayName_of_def one_piano_def
           Let_def example_defs)

text \<open>
  Claim C2 does not hold for a tempo that is not whole.  \<open>odd_tempo\<close>, about 71.9964, is a
  binary64 value between 60 and 200.  Three bars of it last a little more than 10.0005
  seconds, which is 10.001 seconds to the millisecond; the function returns 10.
\<close>

theorem C2_fractional_tempo:
  "fl odd_tempo = odd_tempo \<and> 60 \<le> odd_tempo \<and> odd_tempo \<le> 200 \<and>
   minBars_of (Fin odd_tempo) (Fin 4) = Fin (of_int (spec_bars_at odd_tempo)) \<and>
   spec_bars_at odd_tempo = 3 \<and>
   spec_targetSeconds_at odd_tempo = 10001 / 1000 \<and>
   calculateOptimalDuration (Fin odd_tempo) (Fin 4) = Fin 10"
proof -
  have "fl odd_tempo = odd_tempo \<and> 60 \<le> odd_tempo \<and> odd_tempo \<le> 200"
    by code_simp
  moreover have "spec_bars_at odd_tempo = 3 \<and> spec_targetSeconds_at odd_tempo = 10001 / 1000"
    by code_simp
  moreover have "minBars_of (Fin odd_tempo) (Fin 4) = Fin 3"
    by code_simp
  moreover have "calculateOptimalDuration (Fin odd_tempo) (Fin 4) = Fin 10"
    by code_simp
  ultimately show ?thesis by simp
qed



end
